theory Spec2Isabelle
  imports Complex_Main "HOL-Library.AList"
begin

section \<open>Data model of \<open>chemprop/train/evaluate.py\<close>\<close>

text \<open>
  Python floats are idealised as the reals together with \<open>NaN\<close> (rounding and the
  infinities are not modelled). A prediction is a float or, for multiclass tasks, a list
  of per-class scores. A target cell is \<open>None\<close> (absent) or a float.
\<close>

datatype pyfloat = Float real | NaN

datatype pred = Scalar pyfloat | Scores "pyfloat list"

text \<open>
  Exceptions are values. \<open>IndexError\<close> and \<open>TypeError\<close> are the two the
  source itself can raise (list indexing, \<open>len\<close> of a float); \<open>Raised\<close> is an
  exception coming out of a collaborator (\<open>get_metric_func\<close> or a metric function).
\<close>

datatype error = IndexError | TypeError | Raised string

datatype logger = Logger

text \<open>
  A Python \<open>dict\<close> keeps insertion order and has unique keys: an association list
  written with \<^const>\<open>AList.update\<close>, which replaces the value of an existing key in place
  and appends a new key at the end.
\<close>

type_synonym 'v dict = "(string \<times> 'v) list"

text \<open>
  A metric function takes the valid targets, the valid predictions and the optional
  \<open>labels\<close> keyword, and returns a float or raises.
\<close>

type_synonym metric_func = "pyfloat list \<Rightarrow> pred list \<Rightarrow> nat list option \<Rightarrow> error + pyfloat"

text \<open>
  The effects of an evaluation: the messages given to \<open>logger.info\<close>, the messages
  given to \<open>print\<close>, and the metric invocations (key, targets, predictions, labels) in
  the order they happen.
\<close>

record world =
  logged :: "string list"
  printed :: "string list"
  calls :: "(string \<times> pyfloat list \<times> pred list \<times> nat list option) list"

section \<open>Python primitives\<close>

definition py_get :: "'a list \<Rightarrow> nat \<Rightarrow> error + 'a" where
  "py_get xs i = (if i < length xs then Inr (xs ! i) else Inl IndexError)"

definition py_len :: "pred \<Rightarrow> error + nat" where
  "py_len p = (case p of Scalar _ \<Rightarrow> Inl TypeError | Scores sc \<Rightarrow> Inr (length sc))"

text \<open>A \<open>for\<close> loop over a range, without and with effects; an exception leaves the loop.\<close>

primrec for_range :: "'i list \<Rightarrow> ('i \<Rightarrow> 's \<Rightarrow> error + 's) \<Rightarrow> 's \<Rightarrow> error + 's" where
  "for_range [] body s = Inr s"
| "for_range (x # xs) body s =
     (case body x s of Inl e \<Rightarrow> Inl e | Inr s' \<Rightarrow> for_range xs body s')"

primrec for_each ::
  "'i list \<Rightarrow> ('i \<Rightarrow> 's \<Rightarrow> world \<Rightarrow> (error + 's) \<times> world) \<Rightarrow> 's \<Rightarrow> world \<Rightarrow>
   (error + 's) \<times> world" where
  "for_each [] body s w = (Inr s, w)"
| "for_each (x # xs) body s w =
     (case body x s w of
        (Inl e, w') \<Rightarrow> (Inl e, w')
      | (Inr s', w') \<Rightarrow> for_each xs body s' w')"

text \<open>\<open>results[metric].append(v)\<close> on a \<open>defaultdict(list)\<close>.\<close>

definition dd_get :: "'v list dict \<Rightarrow> string \<Rightarrow> 'v list" where
  "dd_get d k = (case map_of d k of None \<Rightarrow> [] | Some vs \<Rightarrow> vs)"

definition dd_append :: "string \<Rightarrow> 'v \<Rightarrow> 'v list dict \<Rightarrow> 'v list dict" where
  "dd_append k v d = AList.update k (dd_get d k @ [v]) d"

text \<open>\<open>d.update(other)\<close>.\<close>

definition dict_update :: "'v dict \<Rightarrow> 'v dict \<Rightarrow> 'v dict" where
  "dict_update d other = fold (\<lambda>kv. AList.update (fst kv) (snd kv)) other d"

text \<open>
  \<open>numpy.nanmean\<close> of a list: the mean of the entries that are not \<open>NaN\<close>, and
  \<open>NaN\<close> when there is none.
\<close>

definition finite_values :: "pyfloat list \<Rightarrow> real list" where
  "finite_values vs = concat (map (\<lambda>v. case v of Float x \<Rightarrow> [x] | NaN \<Rightarrow> []) vs)"

definition nanmean :: "pyfloat list \<Rightarrow> pyfloat" where
  "nanmean vs =
     (let xs = finite_values vs
      in if xs = [] then NaN else Float (sum_list xs / real (length xs)))"

section \<open>\<open>select_valid_values\<close>\<close>

text \<open>
  The body of the inner loop (source lines 34 to 37) at task \<open>i\<close> and item \<open>j\<close>.
  Every subscript is a \<^const>\<open>py_get\<close>, in the order Python evaluates them.
\<close>

definition select_cell ::
  "pred list list \<Rightarrow> pyfloat option list list \<Rightarrow> bool \<Rightarrow> nat \<Rightarrow> nat \<Rightarrow>
   pred list list \<times> pyfloat list list \<Rightarrow> error + pred list list \<times> pyfloat list list" where
  "select_cell preds targets metric_by_row i j s =
     (case s of (valid_preds, valid_targets) \<Rightarrow>
      case py_get targets j of Inl e \<Rightarrow> Inl e | Inr trow \<Rightarrow>
      case py_get trow i of Inl e \<Rightarrow> Inl e | Inr cell \<Rightarrow>
      (case cell of
         None \<Rightarrow> Inr (valid_preds, valid_targets)
       | Some t \<Rightarrow>
           let index = (if metric_by_row then j else i) in
           case py_get valid_preds index of Inl e \<Rightarrow> Inl e | Inr gp \<Rightarrow>
           case py_get preds j of Inl e \<Rightarrow> Inl e | Inr prow \<Rightarrow>
           case py_get prow i of Inl e \<Rightarrow> Inl e | Inr p \<Rightarrow>
           case py_get valid_targets index of Inl e \<Rightarrow> Inl e | Inr gt \<Rightarrow>
           Inr (valid_preds[index := gp @ [p]], valid_targets[index := gt @ [t]])))"

definition select_valid_values ::
  "pred list list \<Rightarrow> pyfloat option list list \<Rightarrow> int \<Rightarrow> bool \<Rightarrow>
   error + pred list list \<times> pyfloat list list" where
  "select_valid_values preds targets num_tasks metric_by_row =
     (let num_values = (if metric_by_row then length preds else nat num_tasks);
          valid_preds = replicate num_values [];
          valid_targets = replicate num_values []
      in for_range [0..<nat num_tasks]
           (\<lambda>i. for_range [0..<length preds] (select_cell preds targets metric_by_row i))
           (valid_preds, valid_targets))"

section \<open>\<open>_evaluate_predictions\<close>\<close>

text \<open>\<open>info = logger.info if logger is not None else print\<close>.\<close>

definition info :: "logger option \<Rightarrow> string \<Rightarrow> world \<Rightarrow> world" where
  "info lg msg w =
     (case lg of
        None \<Rightarrow> w\<lparr>printed := printed w @ [msg]\<rparr>
      | Some _ \<Rightarrow> w\<lparr>logged := logged w @ [msg]\<rparr>)"

text \<open>The early return of line 62: a dict comprehension over \<open>metrics\<close>.\<close>

primrec nan_results :: "int \<Rightarrow> string list \<Rightarrow> pyfloat list dict \<Rightarrow> pyfloat list dict" where
  "nan_results num_tasks [] acc = acc"
| "nan_results num_tasks (metric # rest) acc =
     nan_results num_tasks rest (AList.update metric (replicate (nat num_tasks) NaN) acc)"

text \<open>
  Line 66: the dict comprehension that resolves every metric name. \<open>get_metric_func\<close>
  lives in \<open>chemprop.utils\<close>, outside the file; it is a parameter here, and may raise.
\<close>

definition metric_key :: "bool \<Rightarrow> string \<Rightarrow> string" where
  "metric_key metric_by_row metric = metric @ (if metric_by_row then ''-by-row'' else '''')"

primrec metric_to_func ::
  "(string \<Rightarrow> error + metric_func) \<Rightarrow> bool \<Rightarrow> string list \<Rightarrow> metric_func dict \<Rightarrow>
   error + metric_func dict" where
  "metric_to_func get_metric_func metric_by_row [] acc = Inr acc"
| "metric_to_func get_metric_func metric_by_row (metric # rest) acc =
     (case get_metric_func metric of
        Inl e \<Rightarrow> Inl e
      | Inr f \<Rightarrow>
          metric_to_func get_metric_func metric_by_row rest
            (AList.update (metric_key metric_by_row metric) f acc))"

text \<open>The degeneracy tests of lines 82 and 86. A list of scores never equals \<open>0\<close> or \<open>1\<close>.\<close>

definition all_targets :: "real \<Rightarrow> pyfloat list \<Rightarrow> bool" where
  "all_targets c ts = list_all (\<lambda>target. target = Float c) ts"

definition all_preds :: "real \<Rightarrow> pred list \<Rightarrow> bool" where
  "all_preds c ps = list_all (\<lambda>p. p = Scalar (Float c)) ps"

text \<open>Lines 92 and 93: a \<open>NaN\<close> under every key.\<close>

primrec record_nan :: "metric_func dict \<Rightarrow> pyfloat list dict \<Rightarrow> pyfloat list dict" where
  "record_nan [] results = results"
| "record_nan (kf # rest) results = record_nan rest (dd_append (fst kf) NaN results)"

text \<open>
  Lines 100 to 104: one invocation of a metric function on group \<open>i\<close>. The invocation
  is written to the world's \<^const>\<open>calls\<close>.
\<close>

definition invoke ::
  "string \<times> metric_func \<Rightarrow> pyfloat list \<Rightarrow> pred list \<Rightarrow> nat list option \<Rightarrow> world \<Rightarrow>
   (error + pyfloat) \<times> world" where
  "invoke kf ts ps labels w =
     (snd kf ts ps labels, w\<lparr>calls := calls w @ [(fst kf, ts, ps, labels)]\<rparr>)"

definition call_metric ::
  "string \<Rightarrow> pred list list \<Rightarrow> pyfloat list list \<Rightarrow> nat \<Rightarrow> string \<times> metric_func \<Rightarrow> world \<Rightarrow>
   (error + pyfloat) \<times> world" where
  "call_metric dataset_type valid_preds valid_targets i kf w =
     (case py_get valid_targets i of Inl e \<Rightarrow> (Inl e, w) | Inr ts \<Rightarrow>
      case py_get valid_preds i of Inl e \<Rightarrow> (Inl e, w) | Inr ps \<Rightarrow>
      if dataset_type = ''multiclass'' then
        (case py_get ps 0 of Inl e \<Rightarrow> (Inl e, w) | Inr p \<Rightarrow>
         case py_len p of Inl e \<Rightarrow> (Inl e, w) | Inr n \<Rightarrow>
         invoke kf ts ps (Some [0..<n]) w)
      else invoke kf ts ps None w)"

primrec record_metrics ::
  "string \<Rightarrow> pred list list \<Rightarrow> pyfloat list list \<Rightarrow> nat \<Rightarrow> metric_func dict \<Rightarrow>
   pyfloat list dict \<Rightarrow> world \<Rightarrow> (error + pyfloat list dict) \<times> world" where
  "record_metrics dataset_type valid_preds valid_targets i [] results w = (Inr results, w)"
| "record_metrics dataset_type valid_preds valid_targets i (kf # rest) results w =
     (case call_metric dataset_type valid_preds valid_targets i kf w of
        (Inl e, w') \<Rightarrow> (Inl e, w')
      | (Inr v, w') \<Rightarrow>
          record_metrics dataset_type valid_preds valid_targets i rest
            (dd_append (fst kf) v results) w')"

text \<open>Lines 96 to 104: skip an empty group, otherwise invoke every metric.\<close>

definition eval_nonempty ::
  "string \<Rightarrow> metric_func dict \<Rightarrow> pred list list \<Rightarrow> pyfloat list list \<Rightarrow> nat \<Rightarrow>
   pyfloat list dict \<Rightarrow> world \<Rightarrow> (error + pyfloat list dict) \<times> world" where
  "eval_nonempty dataset_type mtf valid_preds valid_targets i results w =
     (case py_get valid_targets i of Inl e \<Rightarrow> (Inl e, w) | Inr ts \<Rightarrow>
      if length ts = 0 then (Inr results, w)
      else record_metrics dataset_type valid_preds valid_targets i mtf results w)"

text \<open>Lines 79 to 104: the body of the loop over \<open>i\<close>.\<close>

definition eval_group ::
  "string \<Rightarrow> bool \<Rightarrow> logger option \<Rightarrow> metric_func dict \<Rightarrow> pred list list \<Rightarrow>
   pyfloat list list \<Rightarrow> nat \<Rightarrow> pyfloat list dict \<Rightarrow> world \<Rightarrow>
   (error + pyfloat list dict) \<times> world" where
  "eval_group dataset_type metric_by_row lg mtf valid_preds valid_targets i results w =
     (if dataset_type = ''classification'' then
        (case py_get valid_targets i of Inl e \<Rightarrow> (Inl e, w) | Inr ts \<Rightarrow>
         let nan1 = (all_targets 0 ts \<or> all_targets 1 ts);
             w1 = (if nan1 \<and> \<not> metric_by_row
                   then info lg ''Warning: Found a task with targets all 0s or all 1s'' w
                   else w)
         in case py_get valid_preds i of Inl e \<Rightarrow> (Inl e, w1) | Inr ps \<Rightarrow>
            let nan2 = (all_preds 0 ps \<or> all_preds 1 ps);
                w2 = (if nan2 \<and> \<not> metric_by_row
                      then info lg ''Warning: Found a task with predictions all 0s or all 1s'' w1
                      else w1)
            in if nan1 \<or> nan2 then (Inr (record_nan mtf results), w2)
               else eval_nonempty dataset_type mtf valid_preds valid_targets i results w2)
      else eval_nonempty dataset_type mtf valid_preds valid_targets i results w)"

text \<open>Lines 109 to 111: the reduction of every value list to its skip-NaN mean.\<close>

definition average_rows :: "pyfloat list dict \<Rightarrow> pyfloat list dict" where
  "average_rows results = map (\<lambda>kv. (fst kv, [nanmean (snd kv)])) results"

text \<open>
  \<open>_evaluate_predictions\<close> (a name cannot start with an underscore here). The loop of
  line 78 runs over \<open>range(len(preds))\<close> in both modes, as the source has it.
\<close>

definition evaluate_predictions_inner ::
  "(string \<Rightarrow> error + metric_func) \<Rightarrow> pred list list \<Rightarrow> pyfloat option list list \<Rightarrow> int \<Rightarrow>
   string list \<Rightarrow> string \<Rightarrow> bool \<Rightarrow> logger option \<Rightarrow> world \<Rightarrow>
   (error + pyfloat list dict) \<times> world" where
  "evaluate_predictions_inner get_metric_func preds targets num_tasks metrics dataset_type
     metric_by_row lg w =
     (if length preds = 0 then (Inr (nan_results num_tasks metrics []), w)
      else
        case metric_to_func get_metric_func metric_by_row metrics [] of
          Inl e \<Rightarrow> (Inl e, w)
        | Inr mtf \<Rightarrow>
           (case select_valid_values preds targets num_tasks metric_by_row of
              Inl e \<Rightarrow> (Inl e, w)
            | Inr (valid_preds, valid_targets) \<Rightarrow>
               (case for_each [0..<length preds]
                       (eval_group dataset_type metric_by_row lg mtf valid_preds valid_targets)
                       [] w of
                  (Inl e, w') \<Rightarrow> (Inl e, w')
                | (Inr results, w') \<Rightarrow>
                    (Inr (if metric_by_row then average_rows results else results), w'))))"

section \<open>\<open>evaluate_predictions\<close>\<close>

definition evaluate_predictions ::
  "(string \<Rightarrow> error + metric_func) \<Rightarrow> pred list list \<Rightarrow> pyfloat option list list \<Rightarrow> int \<Rightarrow>
   string list \<Rightarrow> string \<Rightarrow> bool \<Rightarrow> logger option \<Rightarrow> world \<Rightarrow>
   (error + pyfloat list dict) \<times> world" where
  "evaluate_predictions get_metric_func preds targets num_tasks metrics dataset_type
     metric_by_row lg w =
     (case evaluate_predictions_inner get_metric_func preds targets num_tasks metrics
             dataset_type False lg w of
        (Inl e, w1) \<Rightarrow> (Inl e, w1)
      | (Inr results, w1) \<Rightarrow>
          if metric_by_row then
            (case evaluate_predictions_inner get_metric_func preds targets num_tasks metrics
                    dataset_type True lg w1 of
               (Inl e, w2) \<Rightarrow> (Inl e, w2)
             | (Inr by_row, w2) \<Rightarrow> (Inr (dict_update results by_row), w2))
          else (Inr results, w1))"

section \<open>Notions used in the statements\<close>

text \<open>A cell is addressed as (item \<open>j\<close>, task \<open>i\<close>). It is present when it lies in the
  Target Grid and holds a value.\<close>

definition present :: "pyfloat option list list \<Rightarrow> nat \<Rightarrow> nat \<Rightarrow> bool" where
  "present targets j i =
     (j < length targets \<and> i < length (targets ! j) \<and> targets ! j ! i \<noteq> None)"

text \<open>What \<open>select_valid_values\<close> needs of cell \<open>(j, i)\<close> not to raise: the target
  cell exists and, when it holds a value, the prediction cell exists too.\<close>

definition cell_ok :: "pred list list \<Rightarrow> pyfloat option list list \<Rightarrow> nat \<Rightarrow> nat \<Rightarrow> bool" where
  "cell_ok preds targets j i =
     (j < length targets \<and> i < length (targets ! j) \<and>
      (targets ! j ! i = None \<or> (j < length preds \<and> i < length (preds ! j))))"

text \<open>Both grids have the same item count and every item has width \<open>num_tasks\<close>.\<close>

definition well_shaped :: "pred list list \<Rightarrow> pyfloat option list list \<Rightarrow> int \<Rightarrow> bool" where
  "well_shaped preds targets num_tasks =
     (length targets = length preds \<and>
      list_all (\<lambda>row. int (length row) = num_tasks) preds \<and>
      list_all (\<lambda>row. int (length row) = num_tasks) targets)"

text \<open>The present cells of group \<open>g\<close>, in grid order: the cells of task \<open>g\<close> down the
  items, or the cells of item \<open>g\<close> along the tasks.\<close>

definition group_cells ::
  "pyfloat option list list \<Rightarrow> nat \<Rightarrow> nat \<Rightarrow> bool \<Rightarrow> nat \<Rightarrow> (nat \<times> nat) list" where
  "group_cells targets items tasks by_row g =
     (if by_row then map (\<lambda>i. (g, i)) (filter (\<lambda>i. present targets g i) [0..<tasks])
      else map (\<lambda>j. (j, g)) (filter (\<lambda>j. present targets j g) [0..<items]))"

definition pred_at :: "pred list list \<Rightarrow> nat \<times> nat \<Rightarrow> pred" where
  "pred_at preds c = preds ! fst c ! snd c"

definition target_at :: "pyfloat option list list \<Rightarrow> nat \<times> nat \<Rightarrow> pyfloat" where
  "target_at targets c = the (targets ! fst c ! snd c)"

text \<open>The valid targets and the valid predictions of group \<open>g\<close>, read off the grids,
  and whether the group has a valid target at all.\<close>

definition group_targets ::
  "pyfloat option list list \<Rightarrow> nat \<Rightarrow> nat \<Rightarrow> bool \<Rightarrow> nat \<Rightarrow> pyfloat list" where
  "group_targets targets items tasks by_row g =
     map (target_at targets) (group_cells targets items tasks by_row g)"

definition group_preds ::
  "pred list list \<Rightarrow> pyfloat option list list \<Rightarrow> nat \<Rightarrow> nat \<Rightarrow> bool \<Rightarrow> nat \<Rightarrow> pred list" where
  "group_preds preds targets items tasks by_row g =
     map (pred_at preds) (group_cells targets items tasks by_row g)"

definition has_valid_target :: "pyfloat option list list \<Rightarrow> nat \<Rightarrow> nat \<Rightarrow> bool \<Rightarrow> nat \<Rightarrow> bool" where
  "has_valid_target targets items tasks by_row g =
     (if by_row then list_ex (\<lambda>i. present targets g i) [0..<tasks]
      else list_ex (\<lambda>j. present targets j g) [0..<items])"

text \<open>The loops visit the cells task by task, as pairs (task \<open>i\<close>, item \<open>j\<close>);
  \<open>group_of\<close> is line 35's \<open>index\<close> of such a pair.\<close>

definition group_of :: "bool \<Rightarrow> nat \<times> nat \<Rightarrow> nat" where
  "group_of by_row c = (if by_row then snd c else fst c)"

definition in_group :: "pyfloat option list list \<Rightarrow> bool \<Rightarrow> nat \<Rightarrow> nat \<times> nat \<Rightarrow> bool" where
  "in_group targets br g c = (present targets (snd c) (fst c) \<and> group_of br c = g)"

text \<open>A group is degenerate when one of the four tests of lines 82 and 86 holds.\<close>

definition degenerate :: "pyfloat list \<Rightarrow> pred list \<Rightarrow> bool" where
  "degenerate ts ps =
     (all_targets 0 ts \<or> all_targets 1 ts \<or> all_preds 0 ps \<or> all_preds 1 ps)"

text \<open>The \<open>labels\<close> argument a metric function receives for a group.\<close>

definition labels_for :: "string \<Rightarrow> pred list \<Rightarrow> nat list option" where
  "labels_for dataset_type ps =
     (if dataset_type = ''multiclass''
      then (case ps of Scores sc # _ \<Rightarrow> Some [0..<length sc] | _ \<Rightarrow> None)
      else None)"

text \<open>A group leaves an entry under the metric keys unless it is empty and the dataset
  type is not \<open>classification\<close>.\<close>

definition recorded :: "string \<Rightarrow> pyfloat list \<Rightarrow> bool" where
  "recorded dataset_type ts = (dataset_type = ''classification'' \<or> ts \<noteq> [])"

text \<open>The entry \<open>v\<close> of a recorded group under a key whose metric function is \<open>f\<close>:
  \<open>NaN\<close> for a degenerate classification group, otherwise what \<open>f\<close> returns.\<close>

definition group_entry ::
  "string \<Rightarrow> metric_func \<Rightarrow> pyfloat list \<Rightarrow> pred list \<Rightarrow> pyfloat \<Rightarrow> bool" where
  "group_entry dataset_type f ts ps v =
     (if dataset_type = ''classification'' \<and> degenerate ts ps then v = NaN
      else f ts ps (labels_for dataset_type ps) = Inr v)"

text \<open>From world \<open>w\<close> to world \<open>w'\<close> metric invocations were only added, and every
  added one satisfies \<open>Q\<close>; \<open>sound_call\<close> is the \<open>Q\<close> of interest: the invocation is
  on a group that is not degenerate.\<close>

definition calls_extend ::
  "(string \<times> pyfloat list \<times> pred list \<times> nat list option \<Rightarrow> bool) \<Rightarrow> world \<Rightarrow> world \<Rightarrow> bool" where
  "calls_extend Q w w' =
     (take (length (calls w)) (calls w') = calls w \<and>
      list_all Q (drop (length (calls w)) (calls w')))"

definition sound_call :: "string \<times> pyfloat list \<times> pred list \<times> nat list option \<Rightarrow> bool" where
  "sound_call c = (\<not> degenerate (fst (snd c)) (fst (snd (snd c))))"

text \<open>Two worlds reached from \<open>w\<close>, one by a run without a logger and one by a run
  with a logger, that differ only in the sink: the same metric invocations, and the same
  messages, printed in \<open>wa\<close> and logged in \<open>wb\<close>.\<close>

definition rerouted :: "world \<Rightarrow> world \<Rightarrow> world \<Rightarrow> bool" where
  "rerouted w wa wb =
     (calls wa = calls wb \<and> logged wa = logged w \<and> printed wb = printed w \<and>
      take (length (printed w)) (printed wa) = printed w \<and>
      take (length (logged w)) (logged wb) = logged w \<and>
      drop (length (printed w)) (printed wa) = drop (length (logged w)) (logged wb))"

text \<open>Sample collaborators for the concrete runs below: a registry that knows three
  names, whose metric counts the valid targets; a metric function that raises whenever it
  is invoked; and a world in which nothing has happened yet.\<close>

definition sample_metric :: metric_func where
  "sample_metric ts ps labels = Inr (Float (real (length ts)))"

definition sample_registry :: "string \<Rightarrow> error + metric_func" where
  "sample_registry metric =
     (if metric = ''rmse'' \<or> metric = ''mae'' \<or> metric = ''auc'' then Inr sample_metric
      else Inl (Raised ''ValueError''))"

definition raising_metric :: metric_func where
  "raising_metric ts ps labels = Inl (Raised ''invoked'')"

definition quiet :: world where
  "quiet = \<lparr>logged = [], printed = [], calls = []\<rparr>"

section \<open>The early return on an empty Prediction Grid\<close>

lemma map_of_nan_results:
  "map_of (nan_results n ms acc) k =
     (if k \<in> set ms then Some (replicate (nat n) NaN) else map_of acc k)"
  by (induction ms arbitrary: acc) (auto simp: update_conv')

lemma distinct_nan_results:
  "distinct (map fst acc) \<Longrightarrow> distinct (map fst (nan_results n ms acc))"
  by (induction ms arbitrary: acc) (auto simp: distinct_update)

lemma map_of_dict_update:
  "distinct (map fst other) \<Longrightarrow>
   map_of (dict_update d other) k =
     (case map_of other k of None \<Rightarrow> map_of d k | Some v \<Rightarrow> Some v)"
  unfolding dict_update_def
proof (induction other arbitrary: d)
  case Nil
  then show ?case by simp
next
  case (Cons kv other)
  obtain a b where kv: "kv = (a, b)" by (cases kv)
  from Cons.prems kv have none: "map_of other a = None"
    by (simp add: map_of_eq_None_iff)
  from Cons.prems have d: "distinct (map fst other)" by simp
  show ?case
    using Cons.IH [OF d, of "AList.update a b d"] none
    by (auto simp: kv update_conv' split: option.splits)
qed

text \<open>
  Claim C5. When the Prediction Grid has no item, \<open>evaluate_predictions\<close> returns
  without touching the world, and every requested metric maps to \<open>num_tasks\<close> values,
  each of them \<open>NaN\<close>. This holds in both modes and for every \<open>get_metric_func\<close>:
  the early return comes before the metric names are resolved.
\<close>

theorem empty_grid_all_nan:
  assumes "m \<in> set metrics" and "0 \<le> num_tasks"
  shows "\<exists>res vs. evaluate_predictions get_metric_func [] targets num_tasks metrics
                     dataset_type metric_by_row lg w = (Inr res, w)
           \<and> map_of res m = Some vs \<and> int (length vs) = num_tasks
           \<and> vs = replicate (nat num_tasks) NaN"
  using assms
  by (simp add: evaluate_predictions_def evaluate_predictions_inner_def map_of_nan_results
      map_of_dict_update distinct_nan_results)

theorem empty_grid_all_nan_witness:
  "\<exists>res vs. evaluate_predictions (\<lambda>m. Inl (Raised ''ValueError'')) [] [] 2 [''rmse'', ''mae'']
                     ''regression'' True None \<lparr>logged = [], printed = [], calls = []\<rparr>
                 = (Inr res, \<lparr>logged = [], printed = [], calls = []\<rparr>)
           \<and> map_of res ''mae'' = Some vs \<and> int (length vs) = 2
           \<and> vs = [NaN, NaN]"
  using empty_grid_all_nan [of "''mae''" "[''rmse'', ''mae'']" 2
      "\<lambda>m. Inl (Raised ''ValueError'')" "[]" "''regression''" True None
      "\<lparr>logged = [], printed = [], calls = []\<rparr>"]
  by (simp add: numeral_2_eq_2)

section \<open>The Validity Selector\<close>

lemma for_range_append:
  "for_range (xs @ ys) body s =
     (case for_range xs body s of Inl e \<Rightarrow> Inl e | Inr s' \<Rightarrow> for_range ys body s')"
  by (induction xs arbitrary: s) (auto split: sum.splits)

lemma for_range_map:
  "for_range (map g ys) body s = for_range ys (\<lambda>y. body (g y)) s"
  by (induction ys arbitrary: s) (auto split: sum.splits)

lemma for_range_nested:
  "for_range xs (\<lambda>i. for_range ys (f i)) s =
   for_range (concat (map (\<lambda>i. map (Pair i) ys) xs)) (\<lambda>c. f (fst c) (snd c)) s"
  by (induction xs arbitrary: s) (auto simp: for_range_append for_range_map split: sum.splits)

lemma select_cell_ok:
  assumes "cell_ok preds targets j i" and "length vp = nv" and "length vt = nv"
    and "(if br then j else i) < nv"
  shows "select_cell preds targets br i j (vp, vt) =
     Inr (if present targets j i
          then (vp[(if br then j else i) := vp ! (if br then j else i) @ [preds ! j ! i]],
                vt[(if br then j else i) := vt ! (if br then j else i) @ [the (targets ! j ! i)]])
          else (vp, vt))"
  using assms
  by (cases br) (auto simp: select_cell_def cell_ok_def present_def py_get_def Let_def split: option.splits)

lemma select_cell_bad:
  assumes "\<not> cell_ok preds targets j i" and "j < length preds" and "length vp = nv" and "length vt = nv"
    and "(if br then j else i) < nv"
  shows "select_cell preds targets br i j (vp, vt) = Inl IndexError"
  using assms
  by (cases br) (auto simp: select_cell_def cell_ok_def py_get_def Let_def split: option.splits)

lemma flat_ok:
  assumes "\<forall>c\<in>set cs. cell_ok preds targets (snd c) (fst c) \<and> group_of br c < nv"
    and "length vp = nv" and "length vt = nv"
  shows "\<exists>vp' vt'. for_range cs (\<lambda>c. select_cell preds targets br (fst c) (snd c)) (vp, vt) = Inr (vp', vt')
      \<and> length vp' = nv \<and> length vt' = nv
      \<and> (\<forall>g<nv. vp' ! g = vp ! g @ map (\<lambda>c. preds ! snd c ! fst c) (filter (in_group targets br g) cs)
              \<and> vt' ! g = vt ! g @ map (\<lambda>c. the (targets ! snd c ! fst c)) (filter (in_group targets br g) cs))"
  using assms
proof (induction cs arbitrary: vp vt)
  case Nil
  then show ?case by simp
next
  case (Cons c cs)
  obtain i j where c: "c = (i, j)" by (cases c)
  let ?g = "if br then j else i"
  from Cons.prems c have ok: "cell_ok preds targets j i" and g: "?g < nv"
    by (auto simp: group_of_def)
  note step = select_cell_ok [OF ok Cons.prems(2) Cons.prems(3) g]
  show ?case
  proof (cases "present targets j i")
    case False
    from Cons.prems have rest: "\<forall>c\<in>set cs. cell_ok preds targets (snd c) (fst c) \<and> group_of br c < nv"
      by simp
    from Cons.IH [OF rest Cons.prems(2) Cons.prems(3)] False step
    show ?thesis by (simp add: c in_group_def)
  next
    case True
    let ?vp = "vp[?g := vp ! ?g @ [preds ! j ! i]]"
    let ?vt = "vt[?g := vt ! ?g @ [the (targets ! j ! i)]]"
    from Cons.prems have rest: "\<forall>c\<in>set cs. cell_ok preds targets (snd c) (fst c) \<and> group_of br c < nv"
      by simp
    have l1: "length ?vp = nv" and l2: "length ?vt = nv"
      using Cons.prems by simp_all
    from Cons.IH [OF rest l1 l2] obtain vp' vt' where
      run: "for_range cs (\<lambda>c. select_cell preds targets br (fst c) (snd c)) (?vp, ?vt) = Inr (vp', vt')"
      and len: "length vp' = nv" "length vt' = nv"
      and grp: "\<forall>g<nv. vp' ! g = ?vp ! g @ map (\<lambda>c. preds ! snd c ! fst c) (filter (in_group targets br g) cs)
              \<and> vt' ! g = ?vt ! g @ map (\<lambda>c. the (targets ! snd c ! fst c)) (filter (in_group targets br g) cs)"
      by blast
    have "for_range (c # cs) (\<lambda>c. select_cell preds targets br (fst c) (snd c)) (vp, vt) = Inr (vp', vt')"
      using step True run by (simp add: c)
    moreover have "\<forall>g<nv. vp' ! g = vp ! g @ map (\<lambda>c. preds ! snd c ! fst c) (filter (in_group targets br g) (c # cs))
              \<and> vt' ! g = vt ! g @ map (\<lambda>c. the (targets ! snd c ! fst c)) (filter (in_group targets br g) (c # cs))"
    proof (intro allI impI)
      fix g assume gn: "g < nv"
      show "vp' ! g = vp ! g @ map (\<lambda>c. preds ! snd c ! fst c) (filter (in_group targets br g) (c # cs))
              \<and> vt' ! g = vt ! g @ map (\<lambda>c. the (targets ! snd c ! fst c)) (filter (in_group targets br g) (c # cs))"
        using grp [rule_format, OF gn] True gn Cons.prems(2,3)
        by (cases "?g = g") (auto simp: c in_group_def group_of_def nth_list_update)
    qed
    ultimately show ?thesis using len by blast
  qed
qed

lemma flat_bad:
  assumes "\<forall>c\<in>set cs. snd c < length preds \<and> group_of br c < nv"
    and "\<exists>c\<in>set cs. \<not> cell_ok preds targets (snd c) (fst c)"
    and "length vp = nv" and "length vt = nv"
  shows "for_range cs (\<lambda>c. select_cell preds targets br (fst c) (snd c)) (vp, vt) = Inl IndexError"
  using assms
proof (induction cs arbitrary: vp vt)
  case Nil
  then show ?case by simp
next
  case (Cons c cs)
  obtain i j where c: "c = (i, j)" by (cases c)
  let ?g = "if br then j else i"
  from Cons.prems c have j: "j < length preds" and g: "?g < nv"
    by (auto simp: group_of_def)
  show ?case
  proof (cases "cell_ok preds targets j i")
    case False
    from select_cell_bad [OF False j Cons.prems(3) Cons.prems(4) g]
    show ?thesis by (simp add: c)
  next
    case True
    note step = select_cell_ok [OF True Cons.prems(3) Cons.prems(4) g]
    from Cons.prems True c have bad: "\<exists>c\<in>set cs. \<not> cell_ok preds targets (snd c) (fst c)"
      by auto
    from Cons.prems have rng: "\<forall>c\<in>set cs. snd c < length preds \<and> group_of br c < nv"
      by simp
    show ?thesis
    proof (cases "present targets j i")
      case False
      with step Cons.IH [OF rng bad Cons.prems(3) Cons.prems(4)] show ?thesis
        by (simp add: c)
    next
      case present: True
      have l1: "length (vp[?g := vp ! ?g @ [preds ! j ! i]]) = nv"
        and l2: "length (vt[?g := vt ! ?g @ [the (targets ! j ! i)]]) = nv"
        using Cons.prems by simp_all
      from step present Cons.IH [OF rng bad l1 l2] show ?thesis
        by (simp add: c)
    qed
  qed
qed

lemma filter_fst_product:
  assumes "distinct xs" and "g \<in> set xs"
  shows "filter (\<lambda>c. P c \<and> fst c = g) (concat (map (\<lambda>i. map (Pair i) ys) xs))
       = map (Pair g) (filter (\<lambda>j. P (g, j)) ys)"
  using assms
proof (induction xs)
  case Nil
  then show ?case by simp
next
  case (Cons x xs)
  have none: "g \<notin> set zs \<Longrightarrow> filter (\<lambda>c. P c \<and> fst c = g) (concat (map (\<lambda>i. map (Pair i) ys) zs)) = []" for zs
    by (induction zs) (auto simp: filter_empty_conv)
  show ?case
  proof (cases "x = g")
    case True
    with Cons.prems have "g \<notin> set xs" by simp
    from none [OF this] True show ?thesis
      by (simp add: filter_map comp_def)
  next
    case False
    with Cons.prems have "distinct xs" "g \<in> set xs" by auto
    from Cons.IH [OF this] False show ?thesis
      by (simp add: filter_empty_conv)
  qed
qed

lemma filter_snd_row:
  assumes "distinct ys" and "g \<in> set ys"
  shows "filter (\<lambda>c. P c \<and> snd c = g) (map (Pair i) ys) = (if P (i, g) then [(i, g)] else [])"
  using assms
proof (induction ys)
  case Nil
  then show ?case by simp
next
  case (Cons y ys)
  have none: "g \<notin> set zs \<Longrightarrow> filter (\<lambda>c. P c \<and> snd c = g) (map (Pair i) zs) = []" for zs
    by (induction zs) auto
  show ?case
  proof (cases "y = g")
    case True
    with Cons.prems have "g \<notin> set ys" by simp
    from none [OF this] True show ?thesis by simp
  next
    case False
    with Cons.prems have "distinct ys" "g \<in> set ys" by auto
    from Cons.IH [OF this] False show ?thesis by simp
  qed
qed

lemma filter_snd_product:
  assumes "distinct ys" and "g \<in> set ys"
  shows "filter (\<lambda>c. P c \<and> snd c = g) (concat (map (\<lambda>i. map (Pair i) ys) xs))
       = map (\<lambda>i. (i, g)) (filter (\<lambda>i. P (i, g)) xs)"
  by (induction xs) (simp_all add: filter_snd_row [OF assms])

lemma set_loop_cells:
  "set (concat (map (\<lambda>i. map (Pair i) [0..<m]) [0..<n])) = {c. fst c < n \<and> snd c < m}"
  by (auto simp: image_iff)

lemma select_valid_values_groups:
  assumes ok: "\<forall>i<nat n. \<forall>j<length preds. cell_ok preds targets j i"
  shows "\<exists>vp vt. select_valid_values preds targets n br = Inr (vp, vt)
     \<and> length vp = (if br then length preds else nat n)
     \<and> length vt = (if br then length preds else nat n)
     \<and> (\<forall>g < (if br then length preds else nat n).
           vp ! g = map (pred_at preds) (group_cells targets (length preds) (nat n) br g)
         \<and> vt ! g = map (target_at targets) (group_cells targets (length preds) (nat n) br g))"
proof -
  let ?nv = "if br then length preds else nat n"
  let ?cs = "concat (map (\<lambda>i. map (Pair i) [0..<length preds]) [0..<nat n])"
  have all: "\<forall>c\<in>set ?cs. cell_ok preds targets (snd c) (fst c) \<and> group_of br c < ?nv"
    using ok unfolding set_loop_cells by (auto simp: group_of_def)
  from flat_ok [OF all, of "replicate ?nv []" "replicate ?nv []"]
  obtain vp vt where
    run: "for_range ?cs (\<lambda>c. select_cell preds targets br (fst c) (snd c))
            (replicate ?nv [], replicate ?nv []) = Inr (vp, vt)"
    and len: "length vp = ?nv" "length vt = ?nv"
    and grp: "\<forall>g<?nv. vp ! g = replicate ?nv [] ! g @ map (\<lambda>c. preds ! snd c ! fst c) (filter (in_group targets br g) ?cs)
              \<and> vt ! g = replicate ?nv [] ! g @ map (\<lambda>c. the (targets ! snd c ! fst c)) (filter (in_group targets br g) ?cs)"
    by (auto simp del: replicate.simps)
  have sel: "select_valid_values preds targets n br = Inr (vp, vt)"
    using run by (simp add: select_valid_values_def for_range_nested Let_def)
  have cells: "filter (in_group targets br g) ?cs = map (\<lambda>c. (snd c, fst c)) (group_cells targets (length preds) (nat n) br g) "
    if "g < ?nv" for g
  proof (cases br)
    case True
    with that have "g \<in> set [0..<length preds]" by simp
    from filter_snd_product [OF distinct_upt this, of "\<lambda>c. present targets (snd c) (fst c)" "[0..<nat n]"]
    show ?thesis using True
      by (simp add: in_group_def [abs_def] group_of_def group_cells_def comp_def)
  next
    case False
    with that have "g \<in> set [0..<nat n]" by simp
    from filter_fst_product [OF distinct_upt this, of "\<lambda>c. present targets (snd c) (fst c)" "[0..<length preds]"]
    show ?thesis using False
      by (simp add: in_group_def [abs_def] group_of_def group_cells_def comp_def)
  qed
  have "\<forall>g < ?nv.
           vp ! g = map (pred_at preds) (group_cells targets (length preds) (nat n) br g)
         \<and> vt ! g = map (target_at targets) (group_cells targets (length preds) (nat n) br g)"
    using grp cells by (simp add: comp_def pred_at_def target_at_def)
  with sel len show ?thesis by blast
qed

lemma select_valid_values_raises:
  assumes bad: "\<exists>i<nat n. \<exists>j<length preds. \<not> cell_ok preds targets j i"
  shows "select_valid_values preds targets n br = Inl IndexError"
proof -
  let ?nv = "if br then length preds else nat n"
  let ?cs = "concat (map (\<lambda>i. map (Pair i) [0..<length preds]) [0..<nat n])"
  have rng: "\<forall>c\<in>set ?cs. snd c < length preds \<and> group_of br c < ?nv"
    unfolding set_loop_cells by (auto simp: group_of_def)
  from bad obtain i j where "i < nat n" "j < length preds" "\<not> cell_ok preds targets j i"
    by blast
  then have "(i, j) \<in> set ?cs \<and> \<not> cell_ok preds targets (snd (i, j)) (fst (i, j))"
    unfolding set_loop_cells by simp
  then have ex: "\<exists>c\<in>set ?cs. \<not> cell_ok preds targets (snd c) (fst c)"
    by blast
  from flat_bad [OF rng ex, of "replicate ?nv []" "replicate ?nv []"]
  show ?thesis
    by (simp add: select_valid_values_def for_range_nested Let_def)
qed

lemma well_shaped_cell_ok:
  assumes "well_shaped preds targets n"
  shows "\<forall>i<nat n. \<forall>j<length preds. cell_ok preds targets j i"
  using assms
  by (auto simp: well_shaped_def cell_ok_def list_all_length)

lemma group_cells_member:
  assumes "well_shaped preds targets n"
  shows "(j, i) \<in> set (group_cells targets (length preds) (nat n) br g) \<longleftrightarrow>
         j < length preds \<and> i < nat n \<and> targets ! j ! i \<noteq> None \<and> g = (if br then j else i)"
  using assms
  by (auto simp: well_shaped_def group_cells_def present_def list_all_length)

lemma group_cells_ordered:
  "distinct (group_cells targets m t br g) \<and>
   sorted_wrt (<) (map (\<lambda>c. if br then snd c else fst c) (group_cells targets m t br g))"
proof -
  have inj1: "inj (\<lambda>i::nat. (g, i))" and inj2: "inj (\<lambda>j::nat. (j, g))"
    by (simp_all add: inj_on_def)
  have s: "sorted_wrt (<) (filter P [0..<k])" for P and k :: nat
    by (simp add: sorted_wrt_filter)
  show ?thesis
    by (simp add: group_cells_def distinct_map inj_on_def comp_def s)
qed

text \<open>
  Claim C7. On well-shaped grids \<open>select_valid_values\<close> returns, and its groups are
  exactly the present cells: group \<open>g\<close> lists the predictions, and in step with them the
  targets, of the cells \<open>group_cells g\<close>. A cell belongs to group \<open>g\<close> if and only if
  its target is present and \<open>g\<close> is its task (task-axis mode) or its item (row-axis mode),
  so a present cell lies in exactly one group and an absent one in none; inside a group no
  cell repeats and the cells follow the grid order along the other axis.
\<close>

theorem select_valid_values_partition:
  assumes "well_shaped preds targets num_tasks"
  shows "\<exists>vp vt. select_valid_values preds targets num_tasks by_row = Inr (vp, vt)
     \<and> vp = map (\<lambda>g. map (pred_at preds) (group_cells targets (length preds) (nat num_tasks) by_row g))
               [0..<(if by_row then length preds else nat num_tasks)]
     \<and> vt = map (\<lambda>g. map (target_at targets) (group_cells targets (length preds) (nat num_tasks) by_row g))
               [0..<(if by_row then length preds else nat num_tasks)]
     \<and> (\<forall>j i g. (j, i) \<in> set (group_cells targets (length preds) (nat num_tasks) by_row g) \<longleftrightarrow>
            j < length preds \<and> i < nat num_tasks \<and> targets ! j ! i \<noteq> None \<and>
            g = (if by_row then j else i))
     \<and> (\<forall>g. distinct (group_cells targets (length preds) (nat num_tasks) by_row g) \<and>
            sorted_wrt (<) (map (\<lambda>c. if by_row then snd c else fst c)
               (group_cells targets (length preds) (nat num_tasks) by_row g)))"
proof -
  let ?nv = "if by_row then length preds else nat num_tasks"
  from select_valid_values_groups [OF well_shaped_cell_ok [OF assms], of by_row]
  obtain vp vt where sel: "select_valid_values preds targets num_tasks by_row = Inr (vp, vt)"
    and len: "length vp = ?nv" "length vt = ?nv"
    and grp: "\<forall>g < ?nv.
           vp ! g = map (pred_at preds) (group_cells targets (length preds) (nat num_tasks) by_row g)
         \<and> vt ! g = map (target_at targets) (group_cells targets (length preds) (nat num_tasks) by_row g)"
    by blast
  have vp: "vp = map (\<lambda>g. map (pred_at preds) (group_cells targets (length preds) (nat num_tasks) by_row g)) [0..<?nv]"
    using len grp by (intro nth_equalityI) simp_all
  have vt: "vt = map (\<lambda>g. map (target_at targets) (group_cells targets (length preds) (nat num_tasks) by_row g)) [0..<?nv]"
    using len grp by (intro nth_equalityI) simp_all
  from sel vp vt group_cells_member [OF assms] group_cells_ordered
  show ?thesis by blast
qed

theorem select_valid_values_partition_witness:
  "well_shaped
     [[Scalar (Float 9), Scalar (Float 8)], [Scalar (Float 7), Scalar (Float 6)],
      [Scalar (Float 5), Scalar (Float 4)]]
     [[Some (Float 1), None], [None, None], [Some (Float 0), Some (Float 1)]] 2
   \<and> select_valid_values
     [[Scalar (Float 9), Scalar (Float 8)], [Scalar (Float 7), Scalar (Float 6)],
      [Scalar (Float 5), Scalar (Float 4)]]
     [[Some (Float 1), None], [None, None], [Some (Float 0), Some (Float 1)]] 2 False
     = Inr ([[Scalar (Float 9), Scalar (Float 5)], [Scalar (Float 4)]],
            [[Float 1, Float 0], [Float 1]])"
proof -
  let ?p = "[[Scalar (Float 9), Scalar (Float 8)], [Scalar (Float 7), Scalar (Float 6)],
      [Scalar (Float 5), Scalar (Float 4)]]"
  let ?t = "[[Some (Float 1), None], [None, None], [Some (Float 0), Some (Float 1)]]"
  have ws: "well_shaped ?p ?t 2"
    by (simp add: well_shaped_def)
  have up: "[0..<2] = [0, Suc 0]" "[0..<3] = [0, Suc 0, Suc (Suc 0)]" "nat 2 = 2"
    by (simp_all add: upt_rec)
  from select_valid_values_partition [OF ws, of False] ws
  show ?thesis
    by (simp add: up group_cells_def present_def pred_at_def target_at_def)
qed

text \<open>
  Claim C2, as amended. The selector checks no shape and knows no \<open>ShapeError\<close>. It
  raises, and then an \<open>IndexError\<close>, exactly when some cell with item below
  \<open>len(preds)\<close> and task below \<open>num_tasks\<close> is missing from the Target Grid, or holds
  a target and is missing from the Prediction Grid. On a non-empty Prediction Grid whose
  metric names resolve, \<open>evaluate_predictions\<close> raises the same exception and leaves the
  world as it was.
\<close>

theorem select_valid_values_failure:
  "(select_valid_values preds targets num_tasks by_row = Inl e \<longleftrightarrow>
      e = IndexError \<and> (\<exists>i<nat num_tasks. \<exists>j<length preds. \<not> cell_ok preds targets j i))
   \<and> (preds \<noteq> [] \<and> metric_to_func get_metric_func False metrics [] = Inr mtf \<and>
      select_valid_values preds targets num_tasks False = Inl e' \<longrightarrow>
      evaluate_predictions get_metric_func preds targets num_tasks metrics dataset_type
        metric_by_row lg w = (Inl e', w))"
proof (intro conjI impI)
  show "select_valid_values preds targets num_tasks by_row = Inl e \<longleftrightarrow>
      e = IndexError \<and> (\<exists>i<nat num_tasks. \<exists>j<length preds. \<not> cell_ok preds targets j i)"
  proof (cases "\<exists>i<nat num_tasks. \<exists>j<length preds. \<not> cell_ok preds targets j i")
    case True
    from select_valid_values_raises [OF True, of by_row] True show ?thesis by auto
  next
    case False
    then have "\<forall>i<nat num_tasks. \<forall>j<length preds. cell_ok preds targets j i" by blast
    from select_valid_values_groups [OF this, of by_row] False show ?thesis by auto
  qed
next
  assume "preds \<noteq> [] \<and> metric_to_func get_metric_func False metrics [] = Inr mtf \<and>
      select_valid_values preds targets num_tasks False = Inl e'"
  then show "evaluate_predictions get_metric_func preds targets num_tasks metrics dataset_type
        metric_by_row lg w = (Inl e', w)"
    by (simp add: evaluate_predictions_def evaluate_predictions_inner_def)
qed

theorem select_valid_values_failure_witness:
  "select_valid_values [[Scalar (Float 1)]] [[Some (Float 1)]] 2 False = Inl IndexError
   \<and> evaluate_predictions (\<lambda>m. Inr (\<lambda>ts ps labels. Inr (Float 0))) [[Scalar (Float 1)]]
       [[Some (Float 1)]] 2 [''rmse''] ''regression'' False None
       \<lparr>logged = [], printed = [], calls = []\<rparr>
     = (Inl IndexError, \<lparr>logged = [], printed = [], calls = []\<rparr>)"
proof -
  let ?p = "[[Scalar (Float 1)]]" and ?t = "[[Some (Float 1)]]"
  let ?g = "\<lambda>m::string. Inr (\<lambda>ts ps labels. Inr (Float 0)) :: error + metric_func"
  have bad: "\<not> cell_ok ?p ?t 0 1" by (simp add: cell_ok_def)
  have ex: "\<exists>i<nat 2. \<exists>j<length ?p. \<not> cell_ok ?p ?t j i"
    using bad by (intro exI [of _ 1] exI [of _ 0] conjI) simp_all
  note th = select_valid_values_failure [of ?p ?t 2 False IndexError ?g "[''rmse'']"
      "[(''rmse'', \<lambda>ts ps labels. Inr (Float 0))]" IndexError "''regression''" False None
      "\<lparr>logged = [], printed = [], calls = []\<rparr>"]
  from th ex have sel: "select_valid_values ?p ?t 2 False = Inl IndexError"
    by blast
  have mtf: "metric_to_func ?g False [''rmse''] [] = Inr [(''rmse'', \<lambda>ts ps labels. Inr (Float 0))]"
    by (simp add: metric_key_def)
  from th sel mtf show ?thesis by simp
qed

text \<open>
  Claim C2 as stated fails: with \<open>num_tasks = 1\<close> a grid pair of width two, and a Target
  Grid with one item more than the Prediction Grid, are both accepted.
\<close>

theorem select_valid_values_accepts_mismatch:
  "\<not> well_shaped [[Scalar (Float 1), Scalar (Float 2)]] [[Some (Float 1), Some (Float 0)]] 1
   \<and> select_valid_values [[Scalar (Float 1), Scalar (Float 2)]]
        [[Some (Float 1), Some (Float 0)]] 1 False = Inr ([[Scalar (Float 1)]], [[Float 1]])
   \<and> \<not> well_shaped [[Scalar (Float 1)]] [[Some (Float 1)], [Some (Float 0)]] 1
   \<and> select_valid_values [[Scalar (Float 1)]] [[Some (Float 1)], [Some (Float 0)]] 1 False
       = Inr ([[Scalar (Float 1)]], [[Float 1]])"
  by (simp add: well_shaped_def select_valid_values_def select_cell_def py_get_def)

section \<open>The Metric Aggregator: the loop over the groups\<close>

lemma map_of_dd_append:
  "map_of (dd_append k v d) k' = (if k' = k then Some (dd_get d k @ [v]) else map_of d k')"
  by (simp add: dd_append_def update_conv')

lemma dd_get_dd_append:
  "dd_get (dd_append k v d) k' = (if k' = k then dd_get d k @ [v] else dd_get d k')"
  by (simp add: dd_get_def map_of_dd_append)

lemma distinct_dd_append:
  "distinct (map fst d) \<Longrightarrow> distinct (map fst (dd_append k v d))"
  by (simp add: dd_append_def distinct_update)

lemma map_of_record_nan:
  "distinct (map fst mtf) \<Longrightarrow>
   map_of (record_nan mtf results) k =
     (if k \<in> fst ` set mtf then Some (dd_get results k @ [NaN]) else map_of results k)"
proof (induction mtf arbitrary: results)
  case Nil
  then show ?case by simp
next
  case (Cons kf rest)
  then have d: "distinct (map fst rest)" and nk: "fst kf \<notin> fst ` set rest"
    by auto
  show ?case
    using Cons.IH [OF d, of "dd_append (fst kf) NaN results"] nk
    by (auto simp: map_of_dd_append dd_get_dd_append)
qed

lemma distinct_record_nan:
  "distinct (map fst results) \<Longrightarrow> distinct (map fst (record_nan mtf results))"
  by (induction mtf arbitrary: results) (simp_all add: distinct_dd_append)

lemma call_metric_returns:
  assumes "call_metric ds vp vt i kf w = (Inr v, w')"
    and "py_get vt i = Inr ts" and "py_get vp i = Inr ps"
  shows "snd kf ts ps (labels_for ds ps) = Inr v \<and>
         w' = w\<lparr>calls := calls w @ [(fst kf, ts, ps, labels_for ds ps)]\<rparr>"
  using assms
  by (auto simp: call_metric_def invoke_def labels_for_def py_get_def py_len_def
      split: if_splits sum.splits list.splits pred.splits)

lemma record_metrics_returns:
  assumes "record_metrics ds vp vt i mtf results w = (Inr r', w')"
    and "py_get vt i = Inr ts" and "py_get vp i = Inr ps"
    and "distinct (map fst mtf)"
  shows "(\<forall>k f. (k, f) \<in> set mtf \<longrightarrow>
            (\<exists>v. f ts ps (labels_for ds ps) = Inr v \<and> map_of r' k = Some (dd_get results k @ [v])))
       \<and> (\<forall>k. k \<notin> fst ` set mtf \<longrightarrow> map_of r' k = map_of results k)
       \<and> calls w' = calls w @ map (\<lambda>kf. (fst kf, ts, ps, labels_for ds ps)) mtf
       \<and> logged w' = logged w \<and> printed w' = printed w"
  using assms(1,4)
proof (induction mtf arbitrary: results w)
  case Nil
  then show ?case by simp
next
  case (Cons kf rest)
  from Cons.prems(1) obtain v w1 where
    call: "call_metric ds vp vt i kf w = (Inr v, w1)"
    and rest: "record_metrics ds vp vt i rest (dd_append (fst kf) v results) w1 = (Inr r', w')"
    by (auto split: prod.splits sum.splits)
  from Cons.prems(2) have d: "distinct (map fst rest)" and nk: "fst kf \<notin> fst ` set rest"
    by auto
  note c = call_metric_returns [OF call assms(2,3)]
  note ih = Cons.IH [OF rest d]
  have a: "\<forall>k f. (k, f) \<in> set (kf # rest) \<longrightarrow>
            (\<exists>v. f ts ps (labels_for ds ps) = Inr v \<and> map_of r' k = Some (dd_get results k @ [v]))"
  proof (intro allI impI)
    fix k f assume "(k, f) \<in> set (kf # rest)"
    then consider "kf = (k, f)" | "(k, f) \<in> set rest" by auto
    then show "\<exists>v. f ts ps (labels_for ds ps) = Inr v \<and> map_of r' k = Some (dd_get results k @ [v])"
    proof cases
      case 1
      with nk have "k \<notin> fst ` set rest" by simp
      with ih have "map_of r' k = map_of (dd_append (fst kf) v results) k" by blast
      with 1 c show ?thesis by (auto simp: map_of_dd_append)
    next
      case 2
      then have "k \<in> fst ` set rest" by force
      with nk have "k \<noteq> fst kf" by blast
      from ih 2 obtain v' where "f ts ps (labels_for ds ps) = Inr v'"
        and "map_of r' k = Some (dd_get (dd_append (fst kf) v results) k @ [v'])"
        by blast
      with \<open>k \<noteq> fst kf\<close> show ?thesis by (simp add: dd_get_dd_append)
    qed
  qed
  have b: "\<forall>k. k \<notin> fst ` set (kf # rest) \<longrightarrow> map_of r' k = map_of results k"
    using ih by (auto simp: map_of_dd_append)
  have e: "calls w' = calls w @ map (\<lambda>kf. (fst kf, ts, ps, labels_for ds ps)) (kf # rest)
       \<and> logged w' = logged w \<and> printed w' = printed w"
    using ih c by simp
  from a b e show ?case by blast
qed

lemma distinct_record_metrics:
  "record_metrics ds vp vt i mtf results w = (Inr r', w') \<Longrightarrow>
   distinct (map fst results) \<Longrightarrow> distinct (map fst r')"
proof (induction mtf arbitrary: results w)
  case Nil
  then show ?case by simp
next
  case (Cons kf rest)
  from Cons.prems(1) obtain v w1 where
    rest: "record_metrics ds vp vt i rest (dd_append (fst kf) v results) w1 = (Inr r', w')"
    by (auto split: prod.splits sum.splits)
  from Cons.IH [OF rest distinct_dd_append [OF Cons.prems(2)]] show ?case .
qed

lemma key_in_fst: "(k, f) \<in> set mtf \<Longrightarrow> k \<in> fst ` set mtf"
  by force

lemma calls_info [simp]: "calls (info lg msg w) = calls w"
  by (simp add: info_def split: option.splits)

lemma eval_nonempty_returns:
  assumes ret: "eval_nonempty ds mtf vp vt i results w = (Inr r', w')"
    and d: "distinct (map fst mtf)" and len: "length vp = length vt"
  shows "i < length vt \<and>
    (if vt ! i = [] then r' = results \<and> w' = w
     else (\<forall>k f. (k, f) \<in> set mtf \<longrightarrow>
            (\<exists>v. f (vt ! i) (vp ! i) (labels_for ds (vp ! i)) = Inr v \<and>
                 map_of r' k = Some (dd_get results k @ [v])))
       \<and> (\<forall>k. k \<notin> fst ` set mtf \<longrightarrow> map_of r' k = map_of results k)
       \<and> calls w' = calls w @ map (\<lambda>kf. (fst kf, vt ! i, vp ! i, labels_for ds (vp ! i))) mtf
       \<and> logged w' = logged w \<and> printed w' = printed w)"
proof -
  from ret have i: "i < length vt"
    by (auto simp: eval_nonempty_def py_get_def split: if_splits)
  with len have g: "py_get vt i = Inr (vt ! i)" "py_get vp i = Inr (vp ! i)"
    by (simp_all add: py_get_def)
  show ?thesis
  proof (cases "vt ! i = []")
    case True
    with ret g i show ?thesis by (simp add: eval_nonempty_def)
  next
    case False
    with ret g have "record_metrics ds vp vt i mtf results w = (Inr r', w')"
      by (simp add: eval_nonempty_def)
    from record_metrics_returns [OF this g d] False i show ?thesis by simp
  qed
qed

lemma degenerate_Nil [simp]: "degenerate [] ps"
  by (simp add: degenerate_def all_targets_def)

lemma eval_group_returns:
  assumes ret: "eval_group ds br lg mtf vp vt i results w = (Inr r', w')"
    and d: "distinct (map fst mtf)" and len: "length vp = length vt"
  shows "i < length vt \<and>
    (if recorded ds (vt ! i)
     then (\<forall>k f. (k, f) \<in> set mtf \<longrightarrow>
            (\<exists>v. group_entry ds f (vt ! i) (vp ! i) v \<and>
                 map_of r' k = Some (dd_get results k @ [v])))
       \<and> (\<forall>k. k \<notin> fst ` set mtf \<longrightarrow> map_of r' k = map_of results k)
     else r' = results)
    \<and> calls w' = calls w @
        (if recorded ds (vt ! i) \<and> \<not> (ds = ''classification'' \<and> degenerate (vt ! i) (vp ! i))
         then map (\<lambda>kf. (fst kf, vt ! i, vp ! i, labels_for ds (vp ! i))) mtf else [])"
proof (cases "ds = ''classification''")
  case False
  with ret have ne: "eval_nonempty ds mtf vp vt i results w = (Inr r', w')"
    by (simp add: eval_group_def)
  from eval_nonempty_returns [OF ne d len] False show ?thesis
    by (simp add: recorded_def group_entry_def)
next
  case True
  from ret True have i: "i < length vt"
    by (auto simp: eval_group_def py_get_def split: if_splits)
  with len have g: "py_get vt i = Inr (vt ! i)" "py_get vp i = Inr (vp ! i)"
    by (simp_all add: py_get_def)
  show ?thesis
  proof (cases "degenerate (vt ! i) (vp ! i)")
    case deg: True
    with ret True g have r': "r' = record_nan mtf results" and "calls w' = calls w"
      by (auto simp: eval_group_def Let_def degenerate_def split: if_splits)
    with True deg i map_of_record_nan [OF d, of results] show ?thesis
      by (auto simp: recorded_def group_entry_def dest: key_in_fst)
  next
    case ndeg: False
    then have "vt ! i \<noteq> []" by auto
    from ret True g ndeg have ne: "eval_nonempty ds mtf vp vt i results w = (Inr r', w')"
      by (auto simp: eval_group_def Let_def degenerate_def split: if_splits)
    from eval_nonempty_returns [OF ne d len] True ndeg \<open>vt ! i \<noteq> []\<close> show ?thesis
      by (simp add: recorded_def group_entry_def)
  qed
qed

lemma distinct_eval_group:
  assumes "eval_group ds br lg mtf vp vt i results w = (Inr r', w')"
    and "distinct (map fst results)"
  shows "distinct (map fst r')"
  using assms
  by (auto simp: eval_group_def eval_nonempty_def Let_def distinct_record_nan
      split: if_splits sum.splits dest: distinct_record_metrics)

lemma eval_loop_returns:
  assumes "for_each xs (eval_group ds br lg mtf vp vt) results w = (Inr res, w')"
    and d: "distinct (map fst mtf)" and len: "length vp = length vt"
  shows "(\<forall>i\<in>set xs. i < length vt)
    \<and> (\<forall>k f. (k, f) \<in> set mtf \<longrightarrow>
          (\<exists>vals. list_all2 (\<lambda>i v. group_entry ds f (vt ! i) (vp ! i) v)
                    (filter (\<lambda>i. recorded ds (vt ! i)) xs) vals
               \<and> map_of res k =
                   (if vals = [] then map_of results k else Some (dd_get results k @ vals))))
    \<and> (\<forall>k. k \<notin> fst ` set mtf \<longrightarrow> map_of res k = map_of results k)"
  using assms(1)
proof (induction xs arbitrary: results w)
  case Nil
  then show ?case by simp
next
  case (Cons x xs)
  from Cons.prems obtain r1 w1 where
    body: "eval_group ds br lg mtf vp vt x results w = (Inr r1, w1)"
    and rest: "for_each xs (eval_group ds br lg mtf vp vt) r1 w1 = (Inr res, w')"
    by (auto split: prod.splits sum.splits)
  note b = eval_group_returns [OF body d len]
  note ih = Cons.IH [OF rest]
  have idx: "\<forall>i\<in>set (x # xs). i < length vt"
    using b ih by simp
  have other: "\<forall>k. k \<notin> fst ` set mtf \<longrightarrow> map_of res k = map_of results k"
    using b ih by (auto split: if_splits)
  have keys: "\<forall>k f. (k, f) \<in> set mtf \<longrightarrow>
          (\<exists>vals. list_all2 (\<lambda>i v. group_entry ds f (vt ! i) (vp ! i) v)
                    (filter (\<lambda>i. recorded ds (vt ! i)) (x # xs)) vals
               \<and> map_of res k =
                   (if vals = [] then map_of results k else Some (dd_get results k @ vals)))"
  proof (intro allI impI)
    fix k f assume kf: "(k, f) \<in> set mtf"
    from ih kf obtain vals where
      v1: "list_all2 (\<lambda>i v. group_entry ds f (vt ! i) (vp ! i) v)
             (filter (\<lambda>i. recorded ds (vt ! i)) xs) vals"
      and v2: "map_of res k = (if vals = [] then map_of r1 k else Some (dd_get r1 k @ vals))"
      by blast
    show "\<exists>vals. list_all2 (\<lambda>i v. group_entry ds f (vt ! i) (vp ! i) v)
                    (filter (\<lambda>i. recorded ds (vt ! i)) (x # xs)) vals
               \<and> map_of res k =
                   (if vals = [] then map_of results k else Some (dd_get results k @ vals))"
    proof (cases "recorded ds (vt ! x)")
      case False
      with b have "r1 = results" by simp
      with v1 v2 False show ?thesis by auto
    next
      case True
      with b have "\<forall>k f. (k, f) \<in> set mtf \<longrightarrow>
            (\<exists>v. group_entry ds f (vt ! x) (vp ! x) v \<and>
                 map_of r1 k = Some (dd_get results k @ [v]))"
        by simp
      with kf obtain v where e: "group_entry ds f (vt ! x) (vp ! x) v"
        and m: "map_of r1 k = Some (dd_get results k @ [v])"
        by blast
      from m have g: "dd_get r1 k = dd_get results k @ [v]"
        by (simp add: dd_get_def)
      have "list_all2 (\<lambda>i v. group_entry ds f (vt ! i) (vp ! i) v)
              (filter (\<lambda>i. recorded ds (vt ! i)) (x # xs)) (v # vals)"
        using True e v1 by simp
      moreover have "map_of res k =
          (if v # vals = [] then map_of results k else Some (dd_get results k @ v # vals))"
        using v2 m g by simp
      ultimately show ?thesis by blast
    qed
  qed
  from idx keys other show ?case by blast
qed

lemma distinct_eval_loop:
  "for_each xs (eval_group ds br lg mtf vp vt) results w = (Inr res, w') \<Longrightarrow>
   distinct (map fst results) \<Longrightarrow> distinct (map fst res)"
proof (induction xs arbitrary: results w)
  case Nil
  then show ?case by simp
next
  case (Cons x xs)
  from Cons.prems(1) obtain r1 w1 where
    body: "eval_group ds br lg mtf vp vt x results w = (Inr r1, w1)"
    and rest: "for_each xs (eval_group ds br lg mtf vp vt) r1 w1 = (Inr res, w')"
    by (auto split: prod.splits sum.splits)
  from Cons.IH [OF rest distinct_eval_group [OF body Cons.prems(2)]] show ?case .
qed

lemma metric_key_inj: "metric_key br m = metric_key br m' \<longleftrightarrow> m = m'"
  by (simp add: metric_key_def)

lemma metric_to_func_returns:
  assumes "metric_to_func gmf br ms acc = Inr mtf" and "distinct (map fst acc)"
  shows "distinct (map fst mtf)
     \<and> (\<forall>m\<in>set ms. \<exists>f. gmf m = Inr f \<and> map_of mtf (metric_key br m) = Some f)
     \<and> (\<forall>k. k \<notin> metric_key br ` set ms \<longrightarrow> map_of mtf k = map_of acc k)"
  using assms
proof (induction ms arbitrary: acc)
  case Nil
  then show ?case by simp
next
  case (Cons m ms)
  from Cons.prems(1) obtain f where f: "gmf m = Inr f"
    and rest: "metric_to_func gmf br ms (AList.update (metric_key br m) f acc) = Inr mtf"
    by (auto split: sum.splits)
  have d: "distinct (map fst (AList.update (metric_key br m) f acc))"
    using Cons.prems(2) by (simp add: distinct_update)
  note ih = Cons.IH [OF rest d]
  have "\<exists>f. gmf m = Inr f \<and> map_of mtf (metric_key br m) = Some f"
  proof (cases "m \<in> set ms")
    case True
    with ih show ?thesis by blast
  next
    case False
    then have "metric_key br m \<notin> metric_key br ` set ms"
      by (auto simp: metric_key_inj)
    with ih have "map_of mtf (metric_key br m) = map_of (AList.update (metric_key br m) f acc) (metric_key br m)"
      by blast
    with f show ?thesis by (simp add: update_conv')
  qed
  moreover have "\<forall>k. k \<notin> metric_key br ` set (m # ms) \<longrightarrow> map_of mtf k = map_of acc k"
    using ih by (auto simp: update_conv')
  ultimately show ?case using ih by auto
qed

lemma select_valid_values_returns:
  assumes "select_valid_values preds targets n br = Inr (vp, vt)"
  shows "(\<forall>i<nat n. \<forall>j<length preds. cell_ok preds targets j i)
     \<and> length vp = (if br then length preds else nat n)
     \<and> length vt = (if br then length preds else nat n)
     \<and> (\<forall>g < (if br then length preds else nat n).
           vp ! g = map (pred_at preds) (group_cells targets (length preds) (nat n) br g)
         \<and> vt ! g = map (target_at targets) (group_cells targets (length preds) (nat n) br g))"
proof -
  have ok: "\<forall>i<nat n. \<forall>j<length preds. cell_ok preds targets j i"
  proof (rule ccontr)
    assume "\<not> ?thesis"
    then have "\<exists>i<nat n. \<exists>j<length preds. \<not> cell_ok preds targets j i" by blast
    from select_valid_values_raises [OF this, of br] assms show False by simp
  qed
  from select_valid_values_groups [OF ok, of br] assms ok show ?thesis by auto
qed

section \<open>The Metric Aggregator: whole calls\<close>

lemma inner_nonempty_returns:
  assumes "evaluate_predictions_inner gmf preds targets n metrics ds br lg w = (Inr res, w')"
    and "preds \<noteq> []"
  shows "\<exists>mtf vp vt raw. metric_to_func gmf br metrics [] = Inr mtf
     \<and> select_valid_values preds targets n br = Inr (vp, vt)
     \<and> for_each [0..<length preds] (eval_group ds br lg mtf vp vt) [] w = (Inr raw, w')
     \<and> res = (if br then average_rows raw else raw)"
  using assms
  by (auto simp: evaluate_predictions_inner_def split: sum.splits prod.splits)

lemma map_of_average_rows:
  "map_of (average_rows raw) k = map_option (\<lambda>vs. [nanmean vs]) (map_of raw k)"
  unfolding average_rows_def by (induction raw) auto

lemma distinct_average_rows:
  "distinct (map fst (average_rows raw)) = distinct (map fst raw)"
  by (simp add: average_rows_def comp_def)

lemma map_of_in_set: "distinct (map fst mtf) \<Longrightarrow> k \<in> fst ` set mtf \<Longrightarrow> \<exists>f. (k, f) \<in> set mtf"
  by auto



lemma upt_small: "[0..<2] = [0, Suc 0]" "nat 2 = 2" "[0..<Suc (Suc 0)] = [0, Suc 0]"
  "nat 1 = 1" "[0..<3] = [0, Suc 0, Suc (Suc 0)]"
  by (simp_all add: upt_rec)

lemma sample_select:
  "select_valid_values [[Scalar (Float 1), Scalar (Float 2)], [Scalar (Float 5), Scalar (Float 6)]]
     [[Some (Float 3), None], [Some (Float 4), None]] 2 False
   = Inr ([[Scalar (Float 1), Scalar (Float 5)], []], [[Float 3, Float 4], []])"
  by (simp add: select_valid_values_def select_cell_def py_get_def upt_small numeral_2_eq_2)

lemma sample_task_pass:
  "evaluate_predictions_inner sample_registry
     [[Scalar (Float 1), Scalar (Float 2)], [Scalar (Float 5), Scalar (Float 6)]]
     [[Some (Float 3), None], [Some (Float 4), None]] 2 [''rmse'', ''mae''] ''regression'' False
     None quiet
   = (Inr [(''rmse'', [Float 2]), (''mae'', [Float 2])],
      quiet\<lparr>calls :=
        [(''rmse'', [Float 3, Float 4], [Scalar (Float 1), Scalar (Float 5)], None),
         (''mae'', [Float 3, Float 4], [Scalar (Float 1), Scalar (Float 5)], None)]\<rparr>)"
  by (simp add: evaluate_predictions_inner_def sample_registry_def sample_select metric_key_def
      eval_group_def eval_nonempty_def call_metric_def py_get_def invoke_def dd_append_def
      dd_get_def sample_metric_def quiet_def)


section \<open>Degenerate and empty groups\<close>

lemma calls_extend_iff:
  "calls_extend Q w w' \<longleftrightarrow> (\<exists>new. calls w' = calls w @ new \<and> list_all Q new)"
proof
  assume a: "calls_extend Q w w'"
  then have "calls w' = calls w @ drop (length (calls w)) (calls w')"
    unfolding calls_extend_def by (metis append_take_drop_id)
  with a show "\<exists>new. calls w' = calls w @ new \<and> list_all Q new"
    unfolding calls_extend_def by blast
next
  assume "\<exists>new. calls w' = calls w @ new \<and> list_all Q new"
  then show "calls_extend Q w w'"
    unfolding calls_extend_def by auto
qed

lemma calls_extend_same: "calls w' = calls w \<Longrightarrow> calls_extend Q w w'"
  by (simp add: calls_extend_def)

lemma calls_extend_trans:
  "calls_extend Q w w1 \<Longrightarrow> calls_extend Q w1 w2 \<Longrightarrow> calls_extend Q w w2"
  unfolding calls_extend_iff by auto

lemma calls_extend_call_metric:
  assumes "i < length vt \<Longrightarrow> i < length vp \<Longrightarrow> Q (fst kf, vt ! i, vp ! i, labels_for ds (vp ! i))"
  shows "calls_extend Q w (snd (call_metric ds vp vt i kf w))"
  using assms unfolding calls_extend_iff
  by (auto simp: call_metric_def invoke_def py_get_def py_len_def labels_for_def
      split: sum.splits pred.splits list.splits)

lemma calls_extend_record_metrics:
  assumes "\<And>kf :: string \<times> metric_func. i < length vt \<Longrightarrow> i < length vp \<Longrightarrow> Q (fst kf, vt ! i, vp ! i, labels_for ds (vp ! i))"
  shows "calls_extend Q w (snd (record_metrics ds vp vt i mtf results w))"
proof (induction mtf arbitrary: results w)
  case Nil
  show ?case by (simp add: calls_extend_same)
next
  case (Cons kf rest)
  have c: "calls_extend Q w (snd (call_metric ds vp vt i kf w))"
    by (rule calls_extend_call_metric) (rule assms, assumption+)
  show ?case
  proof (cases "call_metric ds vp vt i kf w")
    case (Pair r w1)
    show ?thesis
    proof (cases r)
      case (Inl e)
      with Pair c show ?thesis by simp
    next
      case (Inr v)
      from Cons.IH [of w1 "dd_append (fst kf) v results"] c Pair Inr
      show ?thesis by (auto intro: calls_extend_trans)
    qed
  qed
qed

lemma calls_extend_eval_nonempty:
  assumes "\<And>kf :: string \<times> metric_func. i < length vt \<Longrightarrow> i < length vp \<Longrightarrow> Q (fst kf, vt ! i, vp ! i, labels_for ds (vp ! i))"
  shows "calls_extend Q w (snd (eval_nonempty ds mtf vp vt i results w))"
  using calls_extend_record_metrics [of i vt vp Q ds w mtf results, OF assms]
  by (auto simp: eval_nonempty_def calls_extend_same split: sum.splits)

lemma calls_extend_eval_group:
  "calls_extend sound_call w (snd (eval_group ''classification'' br lg mtf vp vt i results w))"
proof (cases "i < length vt \<and> i < length vp")
  case False
  then show ?thesis
    by (auto simp: eval_group_def py_get_def Let_def calls_extend_same eval_nonempty_def)
next
  case True
  show ?thesis
  proof (cases "degenerate (vt ! i) (vp ! i)")
    case deg: True
    with True show ?thesis
      by (auto simp: eval_group_def py_get_def Let_def calls_extend_same degenerate_def)
  next
    case ndeg: False
    let ?w2 = "if (all_preds 0 (vp ! i) \<or> all_preds 1 (vp ! i)) \<and> \<not> br
       then info lg ''Warning: Found a task with predictions all 0s or all 1s''
              (if (all_targets 0 (vt ! i) \<or> all_targets 1 (vt ! i)) \<and> \<not> br
               then info lg ''Warning: Found a task with targets all 0s or all 1s'' w else w)
       else (if (all_targets 0 (vt ! i) \<or> all_targets 1 (vt ! i)) \<and> \<not> br
               then info lg ''Warning: Found a task with targets all 0s or all 1s'' w else w)"
    have e: "eval_group ''classification'' br lg mtf vp vt i results w =
        eval_nonempty ''classification'' mtf vp vt i results w"
      using True ndeg by (simp add: eval_group_def py_get_def Let_def degenerate_def)
    have "calls_extend sound_call w (snd (eval_nonempty ''classification'' mtf vp vt i results w))"
      by (rule calls_extend_eval_nonempty) (simp add: sound_call_def ndeg)
    with e show ?thesis by simp
  qed
qed

lemma calls_extend_for_each:
  assumes "\<And>x s w. calls_extend Q w (snd (body x s w))"
  shows "calls_extend Q w (snd (for_each xs body s w))"
proof (induction xs arbitrary: s w)
  case Nil
  show ?case by (simp add: calls_extend_same)
next
  case (Cons x xs)
  show ?case
  proof (cases "body x s w")
    case (Pair r w1)
    from assms [of w x s] Pair have c: "calls_extend Q w w1" by simp
    show ?thesis
    proof (cases r)
      case (Inl e)
      with Pair c show ?thesis by simp
    next
      case (Inr s')
      from Cons.IH [of w1 s'] c Pair Inr show ?thesis
        by (auto intro: calls_extend_trans)
    qed
  qed
qed

lemma calls_extend_inner:
  "calls_extend sound_call w
     (snd (evaluate_predictions_inner gmf preds targets n metrics ''classification'' br lg w))"
proof (cases "preds = []")
  case True
  then show ?thesis
    by (simp add: evaluate_predictions_inner_def calls_extend_same)
next
  case ne: False
  show ?thesis
  proof (cases "metric_to_func gmf br metrics []")
    case (Inl e)
    with ne show ?thesis by (simp add: evaluate_predictions_inner_def calls_extend_same)
  next
    case mtf: (Inr mtf)
    show ?thesis
    proof (cases "select_valid_values preds targets n br")
      case (Inl e)
      with ne mtf show ?thesis by (simp add: evaluate_predictions_inner_def calls_extend_same)
    next
      case (Inr groups)
      obtain vp vt where g: "groups = (vp, vt)" by (cases groups)
      have "calls_extend sound_call w
          (snd (for_each [0..<length preds] (eval_group ''classification'' br lg mtf vp vt) [] w))"
        by (rule calls_extend_for_each) (rule calls_extend_eval_group)
      with ne mtf Inr g show ?thesis
        by (auto simp: evaluate_predictions_inner_def split: sum.splits prod.splits)
    qed
  qed
qed

lemma calls_extend_outer:
  "calls_extend sound_call w
     (snd (evaluate_predictions gmf preds targets n metrics ''classification'' br lg w))"
proof -
  note a = calls_extend_inner [of w gmf preds targets n metrics False lg]
  show ?thesis
  proof (cases "evaluate_predictions_inner gmf preds targets n metrics ''classification'' False lg w")
    case (Pair r w1)
    note b = calls_extend_inner [of w1 gmf preds targets n metrics True lg]
    from a b Pair show ?thesis
      by (auto simp: evaluate_predictions_def split: sum.splits prod.splits
          intro: calls_extend_trans)
  qed
qed

lemma info_fields [simp]:
  "printed (info None msg w) = printed w @ [msg]" "logged (info None msg w) = logged w"
  "printed (info (Some l) msg w) = printed w" "logged (info (Some l) msg w) = logged w @ [msg]"
  by (simp_all add: info_def)

text \<open>
  The loop body on a group without a valid entry. For \<open>classification\<close> the group is
  not skipped: under every metric key a \<open>NaN\<close> is put behind the values already there,
  the other keys stay as they are, and in task-axis mode both warnings are emitted (none
  in row-axis mode). For any other dataset type the group leaves the results and the
  world untouched.
\<close>

lemma empty_group_body:
  assumes "i < length valid_targets" and "i < length valid_preds"
    and "valid_targets ! i = []" and "valid_preds ! i = []"
    and "distinct (map fst mtf)"
  shows "eval_group ''classification'' metric_by_row lg mtf valid_preds valid_targets i results w
       = (Inr (record_nan mtf results),
          if metric_by_row then w
          else info lg ''Warning: Found a task with predictions all 0s or all 1s''
                 (info lg ''Warning: Found a task with targets all 0s or all 1s'' w))
     \<and> (\<forall>k f. (k, f) \<in> set mtf \<longrightarrow>
           map_of (record_nan mtf results) k =
             Some ((case map_of results k of None \<Rightarrow> [] | Some vs \<Rightarrow> vs) @ [NaN]))
     \<and> (\<forall>k. k \<notin> fst ` set mtf \<longrightarrow> map_of (record_nan mtf results) k = map_of results k)
     \<and> (dataset_type \<noteq> ''classification'' \<longrightarrow>
          eval_group dataset_type metric_by_row lg mtf valid_preds valid_targets i results w
            = (Inr results, w))"
proof (intro conjI impI)
  show "eval_group ''classification'' metric_by_row lg mtf valid_preds valid_targets i results w
       = (Inr (record_nan mtf results),
          if metric_by_row then w
          else info lg ''Warning: Found a task with predictions all 0s or all 1s''
                 (info lg ''Warning: Found a task with targets all 0s or all 1s'' w))"
    using assms(1-4)
    by (simp add: eval_group_def py_get_def Let_def all_targets_def all_preds_def)
next
  show "\<forall>k f. (k, f) \<in> set mtf \<longrightarrow>
           map_of (record_nan mtf results) k =
             Some ((case map_of results k of None \<Rightarrow> [] | Some vs \<Rightarrow> vs) @ [NaN])"
    using map_of_record_nan [OF assms(5), of results]
    by (auto simp: dd_get_def dest: key_in_fst)
next
  show "\<forall>k. k \<notin> fst ` set mtf \<longrightarrow> map_of (record_nan mtf results) k = map_of results k"
    using map_of_record_nan [OF assms(5), of results] by simp
next
  assume "dataset_type \<noteq> ''classification''"
  with assms(1-4) show "eval_group dataset_type metric_by_row lg mtf valid_preds valid_targets i
      results w = (Inr results, w)"
    by (simp add: eval_group_def eval_nonempty_def py_get_def)
qed

lemma empty_group_body_example:
  "eval_group ''classification'' False None [(''auc'', raising_metric)] [[]] [[]] 0
       [(''auc'', [Float 7])] quiet
     = (Inr [(''auc'', [Float 7, NaN])],
        quiet\<lparr>printed := [''Warning: Found a task with targets all 0s or all 1s'',
                            ''Warning: Found a task with predictions all 0s or all 1s'']\<rparr>)
   \<and> eval_group ''regression'' False None [(''auc'', raising_metric)] [[]] [[]] 0
       [(''auc'', [Float 7])] quiet
     = (Inr [(''auc'', [Float 7])], quiet)"
  using empty_group_body [of 0 "[[]]" "[[]]" "[(''auc'', raising_metric)]" False None
      "[(''auc'', [Float 7])]" quiet "''regression''"]
  by (simp add: dd_append_def dd_get_def quiet_def info_def)

section \<open>The logger\<close>

lemma rerouted_iff:
  "rerouted w wa wb \<longleftrightarrow>
     calls wa = calls wb \<and> logged wa = logged w \<and> printed wb = printed w \<and>
     (\<exists>msgs. printed wa = printed w @ msgs \<and> logged wb = logged w @ msgs)"
proof
  assume a: "rerouted w wa wb"
  then have "printed wa = printed w @ drop (length (printed w)) (printed wa)"
    and "logged wb = logged w @ drop (length (logged w)) (logged wb)"
    unfolding rerouted_def by (metis append_take_drop_id)+
  with a show "calls wa = calls wb \<and> logged wa = logged w \<and> printed wb = printed w \<and>
     (\<exists>msgs. printed wa = printed w @ msgs \<and> logged wb = logged w @ msgs)"
    unfolding rerouted_def by metis
next
  assume "calls wa = calls wb \<and> logged wa = logged w \<and> printed wb = printed w \<and>
     (\<exists>msgs. printed wa = printed w @ msgs \<and> logged wb = logged w @ msgs)"
  then show "rerouted w wa wb"
    unfolding rerouted_def by auto
qed

lemma rerouted_refl: "rerouted w w w"
  by (simp add: rerouted_def)

lemma rerouted_info:
  "rerouted w wa wb \<Longrightarrow> rerouted w (info None msg wa) (info (Some l) msg wb)"
  unfolding rerouted_iff by (auto simp: info_def)

lemma rerouted_if_info:
  "rerouted w wa wb \<Longrightarrow>
   rerouted w (if c then info None msg wa else wa) (if c then info (Some l) msg wb else wb)"
  by (simp add: rerouted_info)

lemma sim_call_metric:
  assumes "rerouted w wa wb"
  shows "fst (call_metric ds vp vt i kf wa) = fst (call_metric ds vp vt i kf wb)
       \<and> rerouted w (snd (call_metric ds vp vt i kf wa)) (snd (call_metric ds vp vt i kf wb))"
  using assms unfolding rerouted_iff
  by (auto simp: call_metric_def invoke_def split: sum.splits)

lemma sim_record_metrics:
  assumes "rerouted w wa wb"
  shows "fst (record_metrics ds vp vt i mtf results wa) = fst (record_metrics ds vp vt i mtf results wb)
       \<and> rerouted w (snd (record_metrics ds vp vt i mtf results wa))
                    (snd (record_metrics ds vp vt i mtf results wb))"
  using assms
proof (induction mtf arbitrary: results wa wb)
  case Nil
  then show ?case by simp
next
  case (Cons kf rest)
  note c = sim_call_metric [OF Cons.prems, of ds vp vt i kf]
  obtain ra wa1 where a: "call_metric ds vp vt i kf wa = (ra, wa1)" by (cases "call_metric ds vp vt i kf wa")
  obtain rb wb1 where b: "call_metric ds vp vt i kf wb = (rb, wb1)" by (cases "call_metric ds vp vt i kf wb")
  from c a b have eq: "rb = ra" and r: "rerouted w wa1 wb1" by simp_all
  show ?case
  proof (cases ra)
    case (Inl e)
    with a b eq r show ?thesis by simp
  next
    case (Inr v)
    from Cons.IH [OF r, of "dd_append (fst kf) v results"] a b eq Inr show ?thesis by simp
  qed
qed

lemma sim_eval_nonempty:
  assumes "rerouted w wa wb"
  shows "fst (eval_nonempty ds mtf vp vt i results wa) = fst (eval_nonempty ds mtf vp vt i results wb)
       \<and> rerouted w (snd (eval_nonempty ds mtf vp vt i results wa))
                    (snd (eval_nonempty ds mtf vp vt i results wb))"
  using assms sim_record_metrics [OF assms, of ds vp vt i mtf results]
  by (auto simp: eval_nonempty_def split: sum.splits)

lemma sim_eval_group:
  assumes "rerouted w wa wb"
  shows "fst (eval_group ds br None mtf vp vt i results wa)
           = fst (eval_group ds br (Some l) mtf vp vt i results wb)
       \<and> rerouted w (snd (eval_group ds br None mtf vp vt i results wa))
                    (snd (eval_group ds br (Some l) mtf vp vt i results wb))"
proof (cases "ds = ''classification''")
  case False
  with sim_eval_nonempty [OF assms, of ds mtf vp vt i results] show ?thesis
    by (simp add: eval_group_def)
next
  case True
  let ?m1 = "''Warning: Found a task with targets all 0s or all 1s''"
  let ?m2 = "''Warning: Found a task with predictions all 0s or all 1s''"
  show ?thesis
  proof (cases "py_get vt i")
    case (Inl e)
    with True assms show ?thesis by (simp add: eval_group_def)
  next
    case ts: (Inr ts)
    let ?n1 = "all_targets 0 ts \<or> all_targets 1 ts"
    let ?wa1 = "if ?n1 \<and> \<not> br then info None ?m1 wa else wa"
    let ?wb1 = "if ?n1 \<and> \<not> br then info (Some l) ?m1 wb else wb"
    have r1: "rerouted w ?wa1 ?wb1"
      by (rule rerouted_if_info [OF assms])
    show ?thesis
    proof (cases "py_get vp i")
      case (Inl e)
      with True ts r1 show ?thesis by (simp add: eval_group_def Let_def)
    next
      case ps: (Inr ps)
      let ?n2 = "all_preds 0 ps \<or> all_preds 1 ps"
      let ?wa2 = "if ?n2 \<and> \<not> br then info None ?m2 ?wa1 else ?wa1"
      let ?wb2 = "if ?n2 \<and> \<not> br then info (Some l) ?m2 ?wb1 else ?wb1"
      have r2: "rerouted w ?wa2 ?wb2"
        by (rule rerouted_if_info [OF r1])
      have ea: "eval_group ds br None mtf vp vt i results wa =
          (if ?n1 \<or> ?n2 then (Inr (record_nan mtf results), ?wa2)
           else eval_nonempty ds mtf vp vt i results ?wa2)"
        using True ts ps by (simp add: eval_group_def Let_def)
      have eb: "eval_group ds br (Some l) mtf vp vt i results wb =
          (if ?n1 \<or> ?n2 then (Inr (record_nan mtf results), ?wb2)
           else eval_nonempty ds mtf vp vt i results ?wb2)"
        using True ts ps by (simp add: eval_group_def Let_def)
      show ?thesis
      proof (cases "?n1 \<or> ?n2")
        case True
        with ea eb r2 show ?thesis by simp
      next
        case False
        with ea eb sim_eval_nonempty [OF r2, of ds mtf vp vt i results] show ?thesis by simp
      qed
    qed
  qed
qed

lemma sim_for_each:
  assumes step: "\<And>x s wa wb. R wa wb \<Longrightarrow>
      fst (b1 x s wa) = fst (b2 x s wb) \<and> R (snd (b1 x s wa)) (snd (b2 x s wb))"
    and "R wa wb"
  shows "fst (for_each xs b1 s wa) = fst (for_each xs b2 s wb)
       \<and> R (snd (for_each xs b1 s wa)) (snd (for_each xs b2 s wb))"
  using assms(2)
proof (induction xs arbitrary: s wa wb)
  case Nil
  then show ?case by simp
next
  case (Cons x xs)
  obtain ra wa1 where a: "b1 x s wa = (ra, wa1)" by (cases "b1 x s wa")
  obtain rb wb1 where b: "b2 x s wb = (rb, wb1)" by (cases "b2 x s wb")
  from step [OF Cons.prems, of x s] a b have eq: "rb = ra" and r: "R wa1 wb1" by simp_all
  show ?case
  proof (cases ra)
    case (Inl e)
    with a b eq r show ?thesis by simp
  next
    case (Inr s')
    from Cons.IH [OF r, of s'] a b eq Inr show ?thesis by simp
  qed
qed

lemma sim_inner:
  assumes "rerouted w wa wb"
  shows "fst (evaluate_predictions_inner gmf preds targets n metrics ds br None wa)
           = fst (evaluate_predictions_inner gmf preds targets n metrics ds br (Some l) wb)
       \<and> rerouted w (snd (evaluate_predictions_inner gmf preds targets n metrics ds br None wa))
                    (snd (evaluate_predictions_inner gmf preds targets n metrics ds br (Some l) wb))"
proof (cases "preds = []")
  case True
  with assms show ?thesis by (simp add: evaluate_predictions_inner_def)
next
  case ne: False
  show ?thesis
  proof (cases "metric_to_func gmf br metrics []")
    case (Inl e)
    with ne assms show ?thesis by (simp add: evaluate_predictions_inner_def)
  next
    case mtf: (Inr mtf)
    show ?thesis
    proof (cases "select_valid_values preds targets n br")
      case (Inl e)
      with ne mtf assms show ?thesis by (simp add: evaluate_predictions_inner_def)
    next
      case (Inr groups)
      obtain vp vt where g: "groups = (vp, vt)" by (cases groups)
      let ?la = "for_each [0..<length preds] (eval_group ds br None mtf vp vt) [] wa"
      let ?lb = "for_each [0..<length preds] (eval_group ds br (Some l) mtf vp vt) [] wb"
      have sim: "fst ?la = fst ?lb \<and> rerouted w (snd ?la) (snd ?lb)"
        by (rule sim_for_each [where R = "rerouted w"]) (rule sim_eval_group, assumption, rule assms)
      obtain ra wa1 where a: "?la = (ra, wa1)" by (cases ?la)
      obtain rb wb1 where b: "?lb = (rb, wb1)" by (cases ?lb)
      from sim a b have eq: "rb = ra" and r: "rerouted w wa1 wb1" by simp_all
      show ?thesis
      proof (cases ra)
        case (Inl e)
        with ne mtf Inr g a b eq r show ?thesis
          by (simp add: evaluate_predictions_inner_def)
      next
        case res: (Inr results)
        with ne mtf Inr g a b eq r show ?thesis
          by (simp add: evaluate_predictions_inner_def)
      qed
    qed
  qed
qed

text \<open>
  Claim C9. Two runs of \<open>evaluate_predictions\<close> on the same arguments from the same
  world, one without a logger and one with, end in the same result (the same mapping,
  or the same exception). Their worlds differ only in the sink: the same messages, in
  the same order, are printed in the first run and logged in the second, and the metric
  invocations are the same.
\<close>

theorem logger_independence:
  "fst (evaluate_predictions get_metric_func preds targets num_tasks metrics dataset_type
          metric_by_row None w)
     = fst (evaluate_predictions get_metric_func preds targets num_tasks metrics dataset_type
          metric_by_row (Some lg) w)
   \<and> rerouted w
       (snd (evaluate_predictions get_metric_func preds targets num_tasks metrics dataset_type
          metric_by_row None w))
       (snd (evaluate_predictions get_metric_func preds targets num_tasks metrics dataset_type
          metric_by_row (Some lg) w))"
proof -
  let ?ia = "evaluate_predictions_inner get_metric_func preds targets num_tasks metrics
      dataset_type False None w"
  let ?ib = "evaluate_predictions_inner get_metric_func preds targets num_tasks metrics
      dataset_type False (Some lg) w"
  note s1 = sim_inner [OF rerouted_refl [of w], where gmf = get_metric_func and preds = preds
      and targets = targets and n = num_tasks and metrics = metrics and ds = dataset_type
      and br = False and l = lg]
  obtain ra wa1 where a: "?ia = (ra, wa1)" by (cases ?ia)
  obtain rb wb1 where b: "?ib = (rb, wb1)" by (cases ?ib)
  from s1 a b have eq: "rb = ra" and r: "rerouted w wa1 wb1" by simp_all
  note s2 = sim_inner [OF r, where gmf = get_metric_func and preds = preds
      and targets = targets and n = num_tasks and metrics = metrics and ds = dataset_type
      and br = True and l = lg]
  show ?thesis
  proof (cases ra)
    case (Inl e)
    with a b eq r show ?thesis by (simp add: evaluate_predictions_def)
  next
    case (Inr results)
    show ?thesis
    proof (cases metric_by_row)
      case False
      with a b eq r Inr show ?thesis by (simp add: evaluate_predictions_def)
    next
      case True
      let ?ja = "evaluate_predictions_inner get_metric_func preds targets num_tasks metrics
          dataset_type True None wa1"
      let ?jb = "evaluate_predictions_inner get_metric_func preds targets num_tasks metrics
          dataset_type True (Some lg) wb1"
      obtain qa wa2 where a2: "?ja = (qa, wa2)" by (cases ?ja)
      obtain qb wb2 where b2: "?jb = (qb, wb2)" by (cases ?jb)
      from s2 a2 b2 have "qb = qa" "rerouted w wa2 wb2" by simp_all
      with a b eq Inr True a2 b2 show ?thesis
        by (cases qa) (simp_all add: evaluate_predictions_def)
    qed
  qed
qed

lemma sample_select_absent:
  "select_valid_values [[Scalar (Float 1)]] [[None]] 1 br = Inr ([[]], [[]])"
  by (simp add: select_valid_values_def select_cell_def py_get_def)

lemma sample_empty_task:
  "evaluate_predictions sample_registry [[Scalar (Float 1)]] [[None]] 1 [''auc'']
     ''classification'' False None quiet
   = (Inr [(''auc'', [NaN])],
      quiet\<lparr>printed := [''Warning: Found a task with targets all 0s or all 1s'',
                          ''Warning: Found a task with predictions all 0s or all 1s'']\<rparr>)"
  by (simp add: evaluate_predictions_def evaluate_predictions_inner_def sample_registry_def
      sample_select_absent metric_key_def eval_group_def py_get_def all_targets_def
      all_preds_def dd_append_def dd_get_def info_def quiet_def)

theorem logger_independence_witness:
  "fst (evaluate_predictions sample_registry [[Scalar (Float 1)]] [[None]] 1 [''auc'']
          ''classification'' False (Some Logger) quiet) = Inr [(''auc'', [NaN])]
   \<and> rerouted quiet
        (quiet\<lparr>printed := [''Warning: Found a task with targets all 0s or all 1s'',
                            ''Warning: Found a task with predictions all 0s or all 1s'']\<rparr>)
        (snd (evaluate_predictions sample_registry [[Scalar (Float 1)]] [[None]] 1 [''auc'']
          ''classification'' False (Some Logger) quiet))"
  using logger_independence [of sample_registry "[[Scalar (Float 1)]]" "[[None]]" 1 "[''auc'']"
      "''classification''" False quiet Logger]
  by (simp add: sample_empty_task)

section \<open>Entries and keys of a returning pass\<close>

lemma group_targets_empty:
  "group_targets targets items tasks br g = [] \<longleftrightarrow> \<not> has_valid_target targets items tasks br g"
  by (auto simp: group_targets_def group_cells_def has_valid_target_def filter_empty_conv
      list_ex_iff)

lemma metric_to_func_resolves:
  assumes "metric_to_func gmf br ms [] = Inr mtf"
  shows "distinct (map fst mtf)"
    and "\<forall>m\<in>set ms. \<exists>f. gmf m = Inr f \<and> (metric_key br m, f) \<in> set mtf"
    and "\<forall>k. k \<notin> metric_key br ` set ms \<longrightarrow> k \<notin> fst ` set mtf"
proof -
  have e: "distinct (map fst ([] :: metric_func dict))" by simp
  note R = metric_to_func_returns [OF assms e]
  from R show "distinct (map fst mtf)" by blast
  from R show "\<forall>m\<in>set ms. \<exists>f. gmf m = Inr f \<and> (metric_key br m, f) \<in> set mtf"
    by (blast dest: map_of_SomeD)
  from R have "\<forall>k. k \<notin> metric_key br ` set ms \<longrightarrow> map_of mtf k = None" by simp
  then show "\<forall>k. k \<notin> metric_key br ` set ms \<longrightarrow> k \<notin> fst ` set mtf"
    by (simp add: map_of_eq_None_iff)
qed

lemma metric_to_func_keys:
  assumes "metric_to_func gmf br ms [] = Inr mtf"
  shows "fst ` set mtf = metric_key br ` set ms"
  using metric_to_func_resolves(2,3) [OF assms] by force

text \<open>What a returning pass over a non-empty grid has computed, key by key.\<close>

lemma inner_entries:
  assumes ret: "evaluate_predictions_inner gmf preds targets n metrics ds br lg w = (Inr res, w')"
    and ne: "preds \<noteq> []" and m: "m \<in> set metrics"
  shows "\<exists>f vals vp vt. gmf m = Inr f
     \<and> select_valid_values preds targets n br = Inr (vp, vt)
     \<and> list_all2 (\<lambda>i v. group_entry ds f (vt ! i) (vp ! i) v)
          (filter (\<lambda>i. recorded ds (vt ! i)) [0..<length preds]) vals
     \<and> map_of res (metric_key br m) =
          (if vals = [] then None else Some (if br then [nanmean vals] else vals))"
proof -
  from inner_nonempty_returns [OF ret ne] obtain mtf vp vt raw where
    mt: "metric_to_func gmf br metrics [] = Inr mtf"
    and s: "select_valid_values preds targets n br = Inr (vp, vt)"
    and l: "for_each [0..<length preds] (eval_group ds br lg mtf vp vt) [] w = (Inr raw, w')"
    and r: "res = (if br then average_rows raw else raw)"
    by blast
  note d = metric_to_func_resolves(1) [OF mt]
  from metric_to_func_resolves(2) [OF mt] m obtain f where
    f: "gmf m = Inr f" and kf: "(metric_key br m, f) \<in> set mtf"
    by blast
  from select_valid_values_returns [OF s] have len: "length vp = length vt" by simp
  from eval_loop_returns [OF l d len] kf obtain vals where
    a: "list_all2 (\<lambda>i v. group_entry ds f (vt ! i) (vp ! i) v)
          (filter (\<lambda>i. recorded ds (vt ! i)) [0..<length preds]) vals"
    and b: "map_of raw (metric_key br m) =
        (if vals = [] then map_of [] (metric_key br m) else Some (dd_get [] (metric_key br m) @ vals))"
    by blast
  from b r have "map_of res (metric_key br m) =
          (if vals = [] then None else Some (if br then [nanmean vals] else vals))"
    by (cases br; cases "vals = []") (simp_all add: map_of_average_rows dd_get_def)
  with f s a show ?thesis by blast
qed

lemma inner_keys:
  assumes ret: "evaluate_predictions_inner gmf preds targets n metrics ds br lg w = (Inr res, w')"
    and ne: "preds \<noteq> []"
  shows "distinct (map fst res)
     \<and> (fst ` set res = {} \<or> fst ` set res = metric_key br ` set metrics)
     \<and> (ds = ''classification'' \<longrightarrow> fst ` set res = metric_key br ` set metrics)"
proof -
  from inner_nonempty_returns [OF ret ne] obtain mtf vp vt raw where
    mt: "metric_to_func gmf br metrics [] = Inr mtf"
    and s: "select_valid_values preds targets n br = Inr (vp, vt)"
    and l: "for_each [0..<length preds] (eval_group ds br lg mtf vp vt) [] w = (Inr raw, w')"
    and r: "res = (if br then average_rows raw else raw)"
    by blast
  note d = metric_to_func_resolves(1) [OF mt]
  from select_valid_values_returns [OF s] have len: "length vp = length vt" by simp
  note L = eval_loop_returns [OF l d len]
  let ?N = "length (filter (\<lambda>i. recorded ds (vt ! i)) [0..<length preds])"
  have "map fst (average_rows raw) = map fst raw"
    by (simp add: average_rows_def comp_def)
  with r have "map fst res = map fst raw" by simp
  then have "set (map fst res) = set (map fst raw)" by simp
  then have keys: "fst ` set res = fst ` set raw" by simp
  have dist: "distinct (map fst res)"
    using r distinct_eval_loop [OF l] by (simp add: distinct_average_rows)
  have mem: "k \<in> fst ` set raw \<longleftrightarrow> k \<in> fst ` set mtf \<and> ?N \<noteq> 0" for k
  proof (cases "k \<in> fst ` set mtf")
    case False
    with L have "map_of raw k = map_of [] k" by blast
    then have "k \<notin> dom (map_of raw)" by auto
    with False show ?thesis by (simp add: dom_map_of_conv_image_fst)
  next
    case True
    then obtain f where "(k, f) \<in> set mtf" by auto
    with L obtain vals where
      a: "list_all2 (\<lambda>i v. group_entry ds f (vt ! i) (vp ! i) v)
          (filter (\<lambda>i. recorded ds (vt ! i)) [0..<length preds]) vals"
      and b: "map_of raw k = (if vals = [] then map_of [] k else Some (dd_get [] k @ vals))"
      by blast
    from a have "length vals = ?N" by (auto dest: list_all2_lengthD)
    with b have "k \<in> dom (map_of raw) \<longleftrightarrow> ?N \<noteq> 0"
      by (auto split: if_splits)
    with True show ?thesis by (simp add: dom_map_of_conv_image_fst)
  qed
  have zero: "fst ` set raw = {}" if "?N = 0"
  proof (rule set_eqI)
    fix k show "k \<in> fst ` set raw \<longleftrightarrow> k \<in> {}"
      using mem [of k] that by simp
  qed
  have pos: "fst ` set raw = fst ` set mtf" if "?N \<noteq> 0"
  proof (rule set_eqI)
    fix k show "k \<in> fst ` set raw \<longleftrightarrow> k \<in> fst ` set mtf"
      using mem [of k] that by simp
  qed
  have k1: "fst ` set res = {} \<or> fst ` set res = metric_key br ` set metrics"
  proof (cases "?N = 0")
    case True
    from zero [OF True] keys show ?thesis by simp
  next
    case False
    from pos [OF False] keys metric_to_func_keys [OF mt] show ?thesis by simp
  qed
  have k2: "fst ` set res = metric_key br ` set metrics" if "ds = ''classification''"
  proof -
    from ne have "0 \<in> set [0..<length preds]" by simp
    with that have "0 \<in> set (filter (\<lambda>i. recorded ds (vt ! i)) [0..<length preds])"
      by (simp add: recorded_def)
    then have "filter (\<lambda>i. recorded ds (vt ! i)) [0..<length preds] \<noteq> []"
      by (cases "filter (\<lambda>i. recorded ds (vt ! i)) [0..<length preds]") simp_all
    then have "?N \<noteq> 0" by simp
    from pos [OF this] keys metric_to_func_keys [OF mt] show ?thesis by simp
  qed
  from dist k1 k2 show ?thesis by blast
qed

section \<open>Task-axis results\<close>

lemma metric_key_False [simp]: "metric_key False m = m"
  by (simp add: metric_key_def)

lemma metric_key_True [simp]: "metric_key True m = m @ ''-by-row''"
  by (simp add: metric_key_def)

lemma groups_as_cells:
  assumes s: "select_valid_values preds targets n br = Inr (vp, vt)"
    and inner: "list_all2 (\<lambda>i v. group_entry ds f (vt ! i) (vp ! i) v)
          (filter (\<lambda>i. recorded ds (vt ! i)) [0..<k]) vals"
    and k: "k \<le> (if br then length preds else nat n)"
  shows "list_all2 (\<lambda>g v. group_entry ds f (group_targets targets (length preds) (nat n) br g)
                       (group_preds preds targets (length preds) (nat n) br g) v)
          (filter (\<lambda>g. ds = ''classification'' \<or>
                        has_valid_target targets (length preds) (nat n) br g) [0..<k]) vals"
proof -
  from select_valid_values_returns [OF s] have grp:
    "\<forall>g < (if br then length preds else nat n).
           vp ! g = group_preds preds targets (length preds) (nat n) br g
         \<and> vt ! g = group_targets targets (length preds) (nat n) br g"
    by (simp add: group_preds_def group_targets_def)
  have same: "filter (\<lambda>i. recorded ds (vt ! i)) [0..<k] =
      filter (\<lambda>g. ds = ''classification'' \<or>
                   has_valid_target targets (length preds) (nat n) br g) [0..<k]"
  proof (rule filter_cong [OF refl])
    fix g assume "g \<in> set [0..<k]"
    with k have "g < (if br then length preds else nat n)" by simp
    with grp have "vt ! g = group_targets targets (length preds) (nat n) br g" by blast
    then show "recorded ds (vt ! g) =
        (ds = ''classification'' \<or> has_valid_target targets (length preds) (nat n) br g)"
      by (simp add: recorded_def group_targets_empty)
  qed
  have "list_all2 (\<lambda>g v. group_entry ds f (group_targets targets (length preds) (nat n) br g)
                       (group_preds preds targets (length preds) (nat n) br g) v)
          (filter (\<lambda>i. recorded ds (vt ! i)) [0..<k]) vals"
  proof (rule list.rel_mono_strong [OF inner])
    fix g v assume "g \<in> set (filter (\<lambda>i. recorded ds (vt ! i)) [0..<k])"
      and e: "group_entry ds f (vt ! g) (vp ! g) v"
    then have "g < k" by simp
    with k have "g < (if br then length preds else nat n)" by simp
    with grp have "vp ! g = group_preds preds targets (length preds) (nat n) br g"
      and "vt ! g = group_targets targets (length preds) (nat n) br g" by blast+
    with e show "group_entry ds f (group_targets targets (length preds) (nat n) br g)
                       (group_preds preds targets (length preds) (nat n) br g) v"
      by simp
  qed
  with same show ?thesis by simp
qed

lemma outer_task_only:
  assumes "evaluate_predictions gmf preds targets n metrics ds False lg w = (Inr res, w')"
  shows "evaluate_predictions_inner gmf preds targets n metrics ds False lg w = (Inr res, w')"
  using assms by (auto simp: evaluate_predictions_def split: prod.splits sum.splits)

lemma outer_both:
  assumes "evaluate_predictions gmf preds targets n metrics ds True lg w = (Inr res, w')"
  shows "\<exists>r1 w1 r2. evaluate_predictions_inner gmf preds targets n metrics ds False lg w = (Inr r1, w1)
     \<and> evaluate_predictions_inner gmf preds targets n metrics ds True lg w1 = (Inr r2, w')
     \<and> res = dict_update r1 r2"
  using assms by (auto simp: evaluate_predictions_def split: prod.splits sum.splits)

text \<open>
  Claim C1, as amended. Take a non-empty grid pair with as many items as tasks, in
  task-axis mode, on which \<open>evaluate_predictions\<close> returns. For a dataset type other
  than \<open>classification\<close> the sequence of a requested metric holds one entry per task
  that has a valid target, in task order: what the metric function returns on that task's
  valid targets and predictions; a task without a valid target contributes nothing, and
  if no task has one the metric is absent from the mapping. For \<open>classification\<close>
  every task contributes one entry, \<open>NaN\<close> when the task is degenerate, which a task
  without a valid target is. In both cases there are at most \<open>num_tasks\<close> entries.
\<close>

theorem task_axis_entries:
  assumes ret: "evaluate_predictions get_metric_func preds targets num_tasks metrics dataset_type
                  False lg w = (Inr res, w')"
    and ne: "preds \<noteq> []"
    and sq: "length preds = nat num_tasks"
    and m: "m \<in> set metrics"
  shows "\<exists>f vals. get_metric_func m = Inr f
     \<and> list_all2 (\<lambda>t v. group_entry dataset_type f
                     (group_targets targets (length preds) (nat num_tasks) False t)
                     (group_preds preds targets (length preds) (nat num_tasks) False t) v)
          (filter (\<lambda>t. dataset_type = ''classification'' \<or>
                        has_valid_target targets (length preds) (nat num_tasks) False t)
             [0..<nat num_tasks]) vals
     \<and> map_of res m = (if vals = [] then None else Some vals)
     \<and> length vals \<le> nat num_tasks"
proof -
  from inner_entries [OF outer_task_only [OF ret] ne m] obtain f vals vp vt where
    f: "get_metric_func m = Inr f"
    and s: "select_valid_values preds targets num_tasks False = Inr (vp, vt)"
    and a: "list_all2 (\<lambda>i v. group_entry dataset_type f (vt ! i) (vp ! i) v)
          (filter (\<lambda>i. recorded dataset_type (vt ! i)) [0..<length preds]) vals"
    and b: "map_of res (metric_key False m) = (if vals = [] then None else Some (if False then [nanmean vals] else vals))"
    by blast
  from a sq have a': "list_all2 (\<lambda>i v. group_entry dataset_type f (vt ! i) (vp ! i) v)
          (filter (\<lambda>i. recorded dataset_type (vt ! i)) [0..<nat num_tasks]) vals"
    by simp
  have k: "nat num_tasks \<le> (if False then length preds else nat num_tasks)" by simp
  note c = groups_as_cells [OF s a' k]
  from c have "length vals = length (filter (\<lambda>t. dataset_type = ''classification'' \<or>
                        has_valid_target targets (length preds) (nat num_tasks) False t)
             [0..<nat num_tasks])"
    by (auto dest: list_all2_lengthD)
  also have "\<dots> \<le> length [0..<nat num_tasks]" by (rule length_filter_le)
  finally have "length vals \<le> nat num_tasks" by simp
  with f c b show ?thesis by auto
qed

lemma sample_task_run:
  "evaluate_predictions sample_registry
     [[Scalar (Float 1), Scalar (Float 2)], [Scalar (Float 5), Scalar (Float 6)]]
     [[Some (Float 3), None], [Some (Float 4), None]] 2 [''rmse'', ''mae''] ''regression'' False
     None quiet
   = (Inr [(''rmse'', [Float 2]), (''mae'', [Float 2])],
      quiet\<lparr>calls :=
        [(''rmse'', [Float 3, Float 4], [Scalar (Float 1), Scalar (Float 5)], None),
         (''mae'', [Float 3, Float 4], [Scalar (Float 1), Scalar (Float 5)], None)]\<rparr>)"
  by (simp add: evaluate_predictions_def sample_task_pass)

theorem task_axis_entries_witness:
  "evaluate_predictions sample_registry
     [[Scalar (Float 1), Scalar (Float 2)], [Scalar (Float 5), Scalar (Float 6)]]
     [[Some (Float 3), None], [Some (Float 4), None]] 2 [''rmse'', ''mae''] ''regression'' False
     None quiet
   = (Inr [(''rmse'', [Float 2]), (''mae'', [Float 2])],
      quiet\<lparr>calls :=
        [(''rmse'', [Float 3, Float 4], [Scalar (Float 1), Scalar (Float 5)], None),
         (''mae'', [Float 3, Float 4], [Scalar (Float 1), Scalar (Float 5)], None)]\<rparr>)
   \<and> (\<exists>f vals. sample_registry ''rmse'' = Inr f
     \<and> list_all2 (\<lambda>t v. group_entry ''regression'' f
                     (group_targets [[Some (Float 3), None], [Some (Float 4), None]]
                        (length [[Scalar (Float 1), Scalar (Float 2)],
                                 [Scalar (Float 5), Scalar (Float 6)]]) (nat 2) False t)
                     (group_preds [[Scalar (Float 1), Scalar (Float 2)],
                                   [Scalar (Float 5), Scalar (Float 6)]]
                        [[Some (Float 3), None], [Some (Float 4), None]]
                        (length [[Scalar (Float 1), Scalar (Float 2)],
                                 [Scalar (Float 5), Scalar (Float 6)]]) (nat 2) False t) v)
          (filter (\<lambda>t. ''regression'' = ''classification'' \<or>
                        has_valid_target [[Some (Float 3), None], [Some (Float 4), None]]
                          (length [[Scalar (Float 1), Scalar (Float 2)],
                                   [Scalar (Float 5), Scalar (Float 6)]]) (nat 2) False t)
             [0..<nat 2]) vals
     \<and> map_of [(''rmse'', [Float 2]), (''mae'', [Float 2])] ''rmse''
          = (if vals = [] then None else Some vals)
     \<and> length vals \<le> nat 2)"
proof -
  have ne: "[[Scalar (Float 1), Scalar (Float 2)], [Scalar (Float 5), Scalar (Float 6)]] \<noteq> []"
    by simp
  have sq: "length [[Scalar (Float 1), Scalar (Float 2)], [Scalar (Float 5), Scalar (Float 6)]]
      = nat 2"
    by simp
  have m: "''rmse'' \<in> set [''rmse'', ''mae'']" by simp
  from sample_task_run task_axis_entries [OF sample_task_run ne sq m]
  show ?thesis by (rule conjI)
qed

text \<open>
  Claim C1 as stated fails for \<open>classification\<close>: on a well-shaped grid of one item and
  one task whose only target is absent, the task has no valid target and still contributes
  an entry.
\<close>

theorem empty_task_gets_entry:
  "well_shaped [[Scalar (Float 1)]] [[None]] 1
   \<and> \<not> has_valid_target [[None]] 1 1 False 0
   \<and> fst (evaluate_predictions sample_registry [[Scalar (Float 1)]] [[None]] 1 [''auc'']
            ''classification'' False None quiet) = Inr [(''auc'', [NaN])]"
  by (simp add: sample_empty_task well_shaped_def has_valid_target_def present_def)

text \<open>
  The loop of line 78 runs over the items in both modes. In task-axis mode it so visits
  the first \<open>len(preds)\<close> tasks: with more items than tasks the evaluation raises
  \<open>IndexError\<close> (here on the example of the specification: three items, one task), with
  fewer items than tasks the later tasks are left out (here: one item, two tasks, both
  with a valid target, and a single entry).
\<close>

lemma loop_bound_overrun:
  "fst (evaluate_predictions sample_registry
     [[Scalar (Float 0.9)], [Scalar (Float 0.2)], [Scalar (Float 0.8)]]
     [[Some (Float 1)], [Some (Float 0)], [None]] 1 [''auc''] ''classification'' False None quiet)
   = Inl IndexError"
  by (simp add: evaluate_predictions_def evaluate_predictions_inner_def sample_registry_def
      select_valid_values_def select_cell_def py_get_def eval_group_def eval_nonempty_def
      call_metric_def invoke_def dd_append_def dd_get_def sample_metric_def quiet_def
      all_targets_def all_preds_def upt_small numeral_3_eq_3)

lemma loop_bound_drops_tasks:
  "fst (evaluate_predictions sample_registry [[Scalar (Float 1), Scalar (Float 2)]]
     [[Some (Float 3), Some (Float 4)]] 2 [''rmse''] ''regression'' False None quiet)
   = Inr [(''rmse'', [Float 1])]"
  by (simp add: evaluate_predictions_def evaluate_predictions_inner_def sample_registry_def
      select_valid_values_def select_cell_def py_get_def eval_group_def eval_nonempty_def
      call_metric_def invoke_def dd_append_def dd_get_def sample_metric_def quiet_def
      upt_small numeral_2_eq_2)

section \<open>Row-axis results and the keys of the Result Mapping\<close>


lemma nanmean_unfold:
  "nanmean vs = (if finite_values vs = [] then NaN
                 else Float (sum_list (finite_values vs) / real (length (finite_values vs))))"
  by (simp add: nanmean_def Let_def)

text \<open>
  Claim C6, as amended. With \<open>metric_by_row\<close> set, on a non-empty grid on which
  \<open>evaluate_predictions\<close> returns, take the values the items record for a metric: one
  per item for \<open>classification\<close> (\<open>NaN\<close> for a degenerate or empty item), one per
  item with a valid target otherwise. If there is such a value, the row-axis entry of the
  metric is the one-element sequence of their skip-NaN mean, which is \<open>NaN\<close> when all of
  them are \<open>NaN\<close> and otherwise the sum of the others divided by their number. If no
  item records a value, the mapping has no row-axis entry for the metric.
\<close>

theorem row_axis_mean:
  assumes ret: "evaluate_predictions get_metric_func preds targets num_tasks metrics dataset_type
                  True lg w = (Inr res, w')"
    and ne: "preds \<noteq> []"
    and m: "m \<in> set metrics"
  shows "\<exists>f vals. get_metric_func m = Inr f
     \<and> list_all2 (\<lambda>j v. group_entry dataset_type f
                     (group_targets targets (length preds) (nat num_tasks) True j)
                     (group_preds preds targets (length preds) (nat num_tasks) True j) v)
          (filter (\<lambda>j. dataset_type = ''classification'' \<or>
                        has_valid_target targets (length preds) (nat num_tasks) True j)
             [0..<length preds]) vals
     \<and> (vals \<noteq> [] \<longrightarrow> map_of res (m @ ''-by-row'') = Some [nanmean vals])
     \<and> (vals = [] \<and> m @ ''-by-row'' \<notin> set metrics \<longrightarrow> map_of res (m @ ''-by-row'') = None)
     \<and> nanmean vals =
         (if finite_values vals = [] then NaN
          else Float (sum_list (finite_values vals) / real (length (finite_values vals))))"
proof -
  from outer_both [OF ret] obtain r1 w1 r2 where
    p1: "evaluate_predictions_inner get_metric_func preds targets num_tasks metrics dataset_type
           False lg w = (Inr r1, w1)"
    and p2: "evaluate_predictions_inner get_metric_func preds targets num_tasks metrics dataset_type
           True lg w1 = (Inr r2, w')"
    and res: "res = dict_update r1 r2"
    by blast
  from inner_entries [OF p2 ne m] obtain f vals vp vt where
    f: "get_metric_func m = Inr f"
    and s: "select_valid_values preds targets num_tasks True = Inr (vp, vt)"
    and a: "list_all2 (\<lambda>i v. group_entry dataset_type f (vt ! i) (vp ! i) v)
          (filter (\<lambda>i. recorded dataset_type (vt ! i)) [0..<length preds]) vals"
    and b: "map_of r2 (metric_key True m) =
        (if vals = [] then None else Some (if True then [nanmean vals] else vals))"
    by blast
  have k: "length preds \<le> (if True then length preds else nat num_tasks)" by simp
  note c = groups_as_cells [OF s a k]
  from inner_keys [OF p2 ne] have d2: "distinct (map fst r2)" by simp
  note u = map_of_dict_update [OF d2, of r1 "m @ ''-by-row''"]
  have some: "map_of res (m @ ''-by-row'') = Some [nanmean vals]" if "vals \<noteq> []"
    using u b that res by simp
  have none: "map_of res (m @ ''-by-row'') = None" if "vals = []" "m @ ''-by-row'' \<notin> set metrics"
  proof -
    from inner_keys [OF p1 ne] have "fst ` set r1 = {} \<or> fst ` set r1 = metric_key False ` set metrics"
      by simp
    with that(2) have "m @ ''-by-row'' \<notin> fst ` set r1" by auto
    then have "map_of r1 (m @ ''-by-row'') = None" by (simp add: map_of_eq_None_iff)
    with u b that(1) res show ?thesis by simp
  qed
  from f c some none nanmean_unfold [of vals] show ?thesis by blast
qed



lemma sample_select_rows:
  "select_valid_values [[Scalar (Float 1), Scalar (Float 2)], [Scalar (Float 5), Scalar (Float 6)]]
     [[Some (Float 3), None], [Some (Float 4), None]] 2 True
   = Inr ([[Scalar (Float 1)], [Scalar (Float 5)]], [[Float 3], [Float 4]])"
  by (simp add: select_valid_values_def select_cell_def py_get_def upt_small numeral_2_eq_2)

lemma sample_row_pass:
  "evaluate_predictions_inner sample_registry
     [[Scalar (Float 1), Scalar (Float 2)], [Scalar (Float 5), Scalar (Float 6)]]
     [[Some (Float 3), None], [Some (Float 4), None]] 2 [''rmse'', ''mae''] ''regression'' True
     None w
   = (Inr [(''rmse-by-row'', [Float 1]), (''mae-by-row'', [Float 1])],
      w\<lparr>calls := calls w @
        [(''rmse-by-row'', [Float 3], [Scalar (Float 1)], None),
         (''mae-by-row'', [Float 3], [Scalar (Float 1)], None),
         (''rmse-by-row'', [Float 4], [Scalar (Float 5)], None),
         (''mae-by-row'', [Float 4], [Scalar (Float 5)], None)]\<rparr>)"
  by (simp add: evaluate_predictions_inner_def
      sample_registry_def sample_select_rows metric_key_def eval_group_def eval_nonempty_def
      call_metric_def py_get_def invoke_def dd_append_def dd_get_def sample_metric_def
      average_rows_def nanmean_def finite_values_def)

lemma sample_both_run:
  "evaluate_predictions sample_registry
     [[Scalar (Float 1), Scalar (Float 2)], [Scalar (Float 5), Scalar (Float 6)]]
     [[Some (Float 3), None], [Some (Float 4), None]] 2 [''rmse'', ''mae''] ''regression'' True
     None quiet
   = (Inr [(''rmse'', [Float 2]), (''mae'', [Float 2]),
         (''rmse-by-row'', [Float 1]), (''mae-by-row'', [Float 1])],
      quiet\<lparr>calls :=
        [(''rmse'', [Float 3, Float 4], [Scalar (Float 1), Scalar (Float 5)], None),
         (''mae'', [Float 3, Float 4], [Scalar (Float 1), Scalar (Float 5)], None),
         (''rmse-by-row'', [Float 3], [Scalar (Float 1)], None),
         (''mae-by-row'', [Float 3], [Scalar (Float 1)], None),
         (''rmse-by-row'', [Float 4], [Scalar (Float 5)], None),
         (''mae-by-row'', [Float 4], [Scalar (Float 5)], None)]\<rparr>)"
  by (simp add: evaluate_predictions_def sample_task_pass sample_row_pass dict_update_def)

theorem row_axis_mean_witness:
  "evaluate_predictions sample_registry
     [[Scalar (Float 1), Scalar (Float 2)], [Scalar (Float 5), Scalar (Float 6)]]
     [[Some (Float 3), None], [Some (Float 4), None]] 2 [''rmse'', ''mae''] ''regression'' True
     None quiet
   = (Inr [(''rmse'', [Float 2]), (''mae'', [Float 2]),
         (''rmse-by-row'', [Float 1]), (''mae-by-row'', [Float 1])],
      quiet\<lparr>calls :=
        [(''rmse'', [Float 3, Float 4], [Scalar (Float 1), Scalar (Float 5)], None),
         (''mae'', [Float 3, Float 4], [Scalar (Float 1), Scalar (Float 5)], None),
         (''rmse-by-row'', [Float 3], [Scalar (Float 1)], None),
         (''mae-by-row'', [Float 3], [Scalar (Float 1)], None),
         (''rmse-by-row'', [Float 4], [Scalar (Float 5)], None),
         (''mae-by-row'', [Float 4], [Scalar (Float 5)], None)]\<rparr>)
   \<and> (\<exists>f vals. sample_registry ''rmse'' = Inr f
     \<and> list_all2 (\<lambda>j v. group_entry ''regression'' f
                     (group_targets [[Some (Float 3), None], [Some (Float 4), None]]
                        (length [[Scalar (Float 1), Scalar (Float 2)], [Scalar (Float 5), Scalar (Float 6)]]) (nat 2) True j)
                     (group_preds [[Scalar (Float 1), Scalar (Float 2)], [Scalar (Float 5), Scalar (Float 6)]]
                        [[Some (Float 3), None], [Some (Float 4), None]]
                        (length [[Scalar (Float 1), Scalar (Float 2)], [Scalar (Float 5), Scalar (Float 6)]]) (nat 2) True j) v)
          (filter (\<lambda>j. ''regression'' = ''classification'' \<or>
                        has_valid_target [[Some (Float 3), None], [Some (Float 4), None]]
                          (length [[Scalar (Float 1), Scalar (Float 2)], [Scalar (Float 5), Scalar (Float 6)]]) (nat 2) True j)
             [0..<length [[Scalar (Float 1), Scalar (Float 2)], [Scalar (Float 5), Scalar (Float 6)]]]) vals
     \<and> (vals \<noteq> [] \<longrightarrow> map_of [(''rmse'', [Float 2]), (''mae'', [Float 2]),
         (''rmse-by-row'', [Float 1]), (''mae-by-row'', [Float 1])] (''rmse'' @ ''-by-row'') = Some [nanmean vals])
     \<and> (vals = [] \<and> ''rmse'' @ ''-by-row'' \<notin> set [''rmse'', ''mae''] \<longrightarrow>
           map_of [(''rmse'', [Float 2]), (''mae'', [Float 2]),
         (''rmse-by-row'', [Float 1]), (''mae-by-row'', [Float 1])] (''rmse'' @ ''-by-row'') = None)
     \<and> nanmean vals =
         (if finite_values vals = [] then NaN
          else Float (sum_list (finite_values vals) / real (length (finite_values vals)))))"
proof -
  have ne: "[[Scalar (Float 1), Scalar (Float 2)], [Scalar (Float 5), Scalar (Float 6)]] \<noteq> []"
    by simp
  have m: "''rmse'' \<in> set [''rmse'', ''mae'']" by simp
  from sample_both_run row_axis_mean [OF sample_both_run ne m]
  show ?thesis by (rule conjI)
qed

text \<open>
  Claim C6 as stated fails: for \<open>regression\<close>, on a grid whose only item has no valid
  target, the returned mapping is empty; it has no row-axis entry, where the claim has the
  one-element sequence \<open>[NaN]\<close>.
\<close>

theorem row_axis_key_missing:
  "\<not> has_valid_target [[None]] 1 1 True 0
   \<and> evaluate_predictions sample_registry [[Scalar (Float 1)]] [[None]] 1 [''rmse'']
       ''regression'' True None quiet = (Inr [], quiet)
   \<and> map_of ([] :: pyfloat list dict) ''rmse-by-row'' = None"
  by (simp add: evaluate_predictions_def evaluate_predictions_inner_def sample_registry_def
      sample_select_absent metric_key_def eval_group_def eval_nonempty_def py_get_def
      average_rows_def dict_update_def has_valid_target_def present_def)



section \<open>Degenerate groups over a whole call\<close>

lemma inner_visits:
  assumes ret: "evaluate_predictions_inner gmf preds targets n metrics ds br lg w = (Inr res, w')"
    and ne: "preds \<noteq> []"
  shows "length preds \<le> (if br then length preds else nat n)"
proof -
  from inner_nonempty_returns [OF ret ne] obtain mtf vp vt raw where
    mt: "metric_to_func gmf br metrics [] = Inr mtf"
    and s: "select_valid_values preds targets n br = Inr (vp, vt)"
    and l: "for_each [0..<length preds] (eval_group ds br lg mtf vp vt) [] w = (Inr raw, w')"
    by blast
  note d = metric_to_func_resolves(1) [OF mt]
  from select_valid_values_returns [OF s] have len: "length vp = length vt"
    and nv: "length vt = (if br then length preds else nat n)" by simp_all
  from eval_loop_returns [OF l d len] have "\<forall>i\<in>set [0..<length preds]. i < length vt"
    by blast
  moreover from ne have "length preds - 1 \<in> set [0..<length preds]" by simp
  ultimately have "length preds - 1 < length vt" by blast
  with nv ne show ?thesis by (cases br) simp_all
qed

lemma degenerate_task_entry:
  assumes ret: "evaluate_predictions_inner gmf preds targets n metrics ''classification'' False
                  lg w = (Inr res, w')"
    and m: "m \<in> set metrics" and t: "t < length preds"
    and deg: "degenerate (group_targets targets (length preds) (nat n) False t)
                (group_preds preds targets (length preds) (nat n) False t)"
  shows "\<exists>vals. map_of res m = Some vals \<and> t < length vals \<and> vals ! t = NaN"
proof -
  from t have ne: "preds \<noteq> []" by auto
  from inner_entries [OF ret ne m] obtain f vals vp vt where
    s: "select_valid_values preds targets n False = Inr (vp, vt)"
    and a: "list_all2 (\<lambda>i v. group_entry ''classification'' f (vt ! i) (vp ! i) v)
          (filter (\<lambda>i. recorded ''classification'' (vt ! i)) [0..<length preds]) vals"
    and b: "map_of res (metric_key False m) =
        (if vals = [] then None else Some (if False then [nanmean vals] else vals))"
    by blast
  from inner_visits [OF ret ne] have k: "length preds \<le> (if False then length preds else nat n)"
    by simp
  from groups_as_cells [OF s a k]
  have c: "list_all2 (\<lambda>g v. group_entry ''classification'' f
                       (group_targets targets (length preds) (nat n) False g)
                       (group_preds preds targets (length preds) (nat n) False g) v)
          [0..<length preds] vals"
    by simp
  then have len: "length vals = length preds" by (auto dest: list_all2_lengthD)
  from list_all2_nthD [OF c, of t] t
  have "group_entry ''classification'' f
          (group_targets targets (length preds) (nat n) False t)
          (group_preds preds targets (length preds) (nat n) False t) (vals ! t)"
    by simp
  with deg have "vals ! t = NaN" by (simp add: group_entry_def)
  moreover from len t have "vals \<noteq> []" by auto
  ultimately show ?thesis using b len t by simp
qed

text \<open>
  Degenerate \<open>classification\<close> groups. When the loop body meets a degenerate group
  (its valid targets are all 0 or all 1, or its valid predictions are all 0 or all 1) it
  returns, whatever the metric functions would do, with a \<open>NaN\<close> put behind the values
  of every metric key and without a single metric invocation. Over a whole call of
  \<open>evaluate_predictions\<close>, whether it returns or raises, every metric invocation made is
  on a group that is not degenerate. And when a task-axis pass returns, the entry of every
  degenerate task the loop has reached is \<open>NaN\<close> under every requested metric.
\<close>

lemma degenerate_group_body:
  "(i < length valid_targets \<and> i < length valid_preds \<and>
    degenerate (valid_targets ! i) (valid_preds ! i) \<and> distinct (map fst mtf) \<longrightarrow>
      (\<exists>w'. eval_group ''classification'' metric_by_row lg mtf valid_preds valid_targets i
               results w = (Inr (record_nan mtf results), w')
         \<and> calls w' = calls w
         \<and> (\<forall>k f. (k, f) \<in> set mtf \<longrightarrow>
               map_of (record_nan mtf results) k =
                 Some ((case map_of results k of None \<Rightarrow> [] | Some vs \<Rightarrow> vs) @ [NaN]))))
   \<and> calls_extend sound_call w0
       (snd (evaluate_predictions get_metric_func preds targets num_tasks metrics
               ''classification'' by_row lg0 w0))
   \<and> (evaluate_predictions_inner get_metric_func preds targets num_tasks metrics
         ''classification'' False lg0 w0 = (Inr res, w1) \<and>
       m \<in> set metrics \<and> t < length preds \<and>
       degenerate (group_targets targets (length preds) (nat num_tasks) False t)
         (group_preds preds targets (length preds) (nat num_tasks) False t) \<longrightarrow>
       (\<exists>vals. map_of res m = Some vals \<and> t < length vals \<and> vals ! t = NaN))"
proof (intro conjI impI)
  assume a: "i < length valid_targets \<and> i < length valid_preds \<and>
    degenerate (valid_targets ! i) (valid_preds ! i) \<and> distinct (map fst mtf)"
  then have d: "distinct (map fst mtf)" by simp
  from a have "\<exists>w'. eval_group ''classification'' metric_by_row lg mtf valid_preds valid_targets i
               results w = (Inr (record_nan mtf results), w') \<and> calls w' = calls w"
    by (auto simp: eval_group_def py_get_def Let_def degenerate_def)
  moreover have "\<forall>k f. (k, f) \<in> set mtf \<longrightarrow>
               map_of (record_nan mtf results) k =
                 Some ((case map_of results k of None \<Rightarrow> [] | Some vs \<Rightarrow> vs) @ [NaN])"
    using map_of_record_nan [OF d, of results] by (auto simp: dd_get_def dest: key_in_fst)
  ultimately show "\<exists>w'. eval_group ''classification'' metric_by_row lg mtf valid_preds valid_targets i
               results w = (Inr (record_nan mtf results), w')
         \<and> calls w' = calls w
         \<and> (\<forall>k f. (k, f) \<in> set mtf \<longrightarrow>
               map_of (record_nan mtf results) k =
                 Some ((case map_of results k of None \<Rightarrow> [] | Some vs \<Rightarrow> vs) @ [NaN]))"
    by blast
next
  show "calls_extend sound_call w0
       (snd (evaluate_predictions get_metric_func preds targets num_tasks metrics
               ''classification'' by_row lg0 w0))"
    by (rule calls_extend_outer)
next
  assume "evaluate_predictions_inner get_metric_func preds targets num_tasks metrics
         ''classification'' False lg0 w0 = (Inr res, w1) \<and>
       m \<in> set metrics \<and> t < length preds \<and>
       degenerate (group_targets targets (length preds) (nat num_tasks) False t)
         (group_preds preds targets (length preds) (nat num_tasks) False t)"
  then show "\<exists>vals. map_of res m = Some vals \<and> t < length vals \<and> vals ! t = NaN"
    using degenerate_task_entry [of get_metric_func preds targets num_tasks metrics lg0 w0 res w1
        m t]
    by blast
qed

lemma degenerate_group_body_example:
  "degenerate [Float 0, Float 0] [Scalar (Float 1), Scalar (Float 0)]
   \<and> (\<exists>w'. eval_group ''classification'' False None [(''auc'', raising_metric)]
            [[Scalar (Float 1), Scalar (Float 0)]] [[Float 0, Float 0]] 0 [] quiet
          = (Inr [(''auc'', [NaN])], w') \<and> calls w' = [])"
proof -
  have deg: "degenerate [Float 0, Float 0] [Scalar (Float 1), Scalar (Float 0)]"
    by (simp add: degenerate_def all_targets_def)
  have pre: "0 < length [[Float 0, Float 0 :: pyfloat]] \<and>
      0 < length [[Scalar (Float 1), Scalar (Float 0)]] \<and>
      degenerate ([[Float 0, Float 0]] ! 0) ([[Scalar (Float 1), Scalar (Float 0)]] ! 0) \<and>
      distinct (map fst [(''auc'', raising_metric)])"
    using deg by simp
  from degenerate_group_body [THEN conjunct1, THEN mp, OF pre, of False None "[]" quiet] deg
  show ?thesis
    by (simp add: dd_append_def dd_get_def quiet_def)
qed

section \<open>The loop bound of line 78\<close>

text \<open>
  Claim C4 fails on the code, by the loop bound of line 78. In task-axis mode the loop
  runs over the items, not over the tasks. With two items and one task whose targets are
  all 0, the call raises \<open>IndexError\<close> after the first round, and no mapping with a
  \<open>NaN\<close> for the task is returned. With one item and two tasks, both degenerate, the
  loop stops after task 0: the mapping holds one \<open>NaN\<close>, and one warning was printed;
  task 1 is never looked at.
\<close>

theorem degenerate_task_not_recorded:
  "degenerate (group_targets [[Some (Float 0)], [Some (Float 0)]] 2 1 False 0)
     (group_preds [[Scalar (Float 0.2)], [Scalar (Float 0.3)]]
        [[Some (Float 0)], [Some (Float 0)]] 2 1 False 0)
   \<and> evaluate_predictions sample_registry [[Scalar (Float 0.2)], [Scalar (Float 0.3)]]
       [[Some (Float 0)], [Some (Float 0)]] 1 [''auc''] ''classification'' False None quiet
     = (Inl IndexError,
        quiet\<lparr>printed := [''Warning: Found a task with targets all 0s or all 1s'']\<rparr>)
   \<and> degenerate (group_targets [[Some (Float 1), Some (Float 0)]] 1 2 False 1)
     (group_preds [[Scalar (Float 0.7), Scalar (Float 0.3)]]
        [[Some (Float 1), Some (Float 0)]] 1 2 False 1)
   \<and> evaluate_predictions sample_registry [[Scalar (Float 0.7), Scalar (Float 0.3)]]
       [[Some (Float 1), Some (Float 0)]] 2 [''auc''] ''classification'' False None quiet
     = (Inr [(''auc'', [NaN])],
        quiet\<lparr>printed := [''Warning: Found a task with targets all 0s or all 1s'']\<rparr>)"
  by (simp add: degenerate_def group_targets_def group_preds_def group_cells_def present_def
      target_at_def pred_at_def all_targets_def all_preds_def
      evaluate_predictions_def evaluate_predictions_inner_def sample_registry_def
      select_valid_values_def select_cell_def py_get_def eval_group_def eval_nonempty_def
      call_metric_def invoke_def dd_append_def dd_get_def sample_metric_def quiet_def
      info_def upt_small numeral_2_eq_2 metric_key_def)

text \<open>
  Claim C8 fails on the code, by the same loop bound of line 78. With one item and two
  tasks, task 1 without a valid target, the loop stops after task 0: the one \<open>NaN\<close> and
  the one warning are those of task 0, whose only target is 1; the empty task 1 gets no
  \<open>NaN\<close> and no warning. With two items and one task without any valid target, the
  empty task gets its \<open>NaN\<close> and both warnings in the first round, and the second round
  raises \<open>IndexError\<close>.
\<close>

theorem empty_task_not_recorded:
  "\<not> has_valid_target [[Some (Float 1), None]] 1 2 False 1
   \<and> evaluate_predictions sample_registry [[Scalar (Float 0.7), Scalar (Float 0.3)]]
       [[Some (Float 1), None]] 2 [''auc''] ''classification'' False None quiet
     = (Inr [(''auc'', [NaN])],
        quiet\<lparr>printed := [''Warning: Found a task with targets all 0s or all 1s'']\<rparr>)
   \<and> \<not> has_valid_target [[None], [None]] 2 1 False 0
   \<and> evaluate_predictions sample_registry [[Scalar (Float 0.7)], [Scalar (Float 0.3)]]
       [[None], [None]] 1 [''auc''] ''classification'' False None quiet
     = (Inl IndexError,
        quiet\<lparr>printed := [''Warning: Found a task with targets all 0s or all 1s'',
                            ''Warning: Found a task with predictions all 0s or all 1s'']\<rparr>)"
  by (simp add: has_valid_target_def present_def all_targets_def all_preds_def
      evaluate_predictions_def evaluate_predictions_inner_def sample_registry_def
      select_valid_values_def select_cell_def py_get_def eval_group_def eval_nonempty_def
      call_metric_def invoke_def dd_append_def dd_get_def sample_metric_def quiet_def
      info_def upt_small numeral_2_eq_2 metric_key_def)

end
